theory Spec2Isabelle
  imports Main "HOL-Library.Word" "HOL-Library.Signed_Division"
begin

unbundle bit_operations_syntax

section \<open>Configuration\<close>

text \<open>
  The kernel core of CrimOS (phase 1): kproc.c, scheduler.c and ksyscall.c. The headers
  (kernel.h, kproc.h, scheduler.h, queue.h, ksyscall.h, trapframe.h) are not among the
  sources, so the compile-time constants they define are parameters of the model,
  collected in one record. The last fields stand for values the linker and the CPU fix:
  the segment registers read by \<^verbatim>\<open>get_cs()\<close> ... \<^verbatim>\<open>get_gs()\<close>, the machine address of the
  top of each process stack and the address of \<^verbatim>\<open>kproc_idle\<close>.
\<close>

record config =
  PROC_MAX :: nat
  PROC_NAME_LEN :: nat
  PROC_IO_MAX :: nat
  QUEUE_SIZE :: nat
  SCHEDULER_TIMESLICE :: int
  OS_NAME :: string
  EF_DEFAULT_VALUE :: "32 word"
  EF_INTR :: "32 word"
  SYSCALL_SYS_GET_TIME :: "32 word"
  SYSCALL_SYS_GET_NAME :: "32 word"
  SYSCALL_PROC_SLEEP :: "32 word"
  SYSCALL_PROC_EXIT :: "32 word"
  SYSCALL_PROC_GET_PID :: "32 word"
  SYSCALL_PROC_GET_NAME :: "32 word"
  SYSCALL_IO_READ :: "32 word"
  SYSCALL_IO_WRITE :: "32 word"
  SYSCALL_IO_FLUSH :: "32 word"
  get_cs :: "32 word"
  get_ds :: "32 word"
  get_es :: "32 word"
  get_fs :: "32 word"
  get_gs :: "32 word"
  stack_top_addr :: "nat \<Rightarrow> 32 word"
  kproc_idle_addr :: "32 word"

section \<open>Data model\<close>

text \<open>
  The process states and types of kproc.h. \<open>NONE\<close> is the enumerator with value 0:
  \<^verbatim>\<open>kproc_init\<close> relies on the zero-initialised table being free, and \<^verbatim>\<open>kproc_destroy\<close>
  frees a slot by zeroing it. \<open>PROC_TYPE_NONE\<close> is the value 0 of the type enumeration,
  which a zeroed slot holds.
\<close>

datatype state_t = NONE | IDLE | ACTIVE | SLEEPING

datatype proc_type_t = PROC_TYPE_NONE | PROC_TYPE_KERNEL | PROC_TYPE_USER

text \<open>The two scheduling queues a \<^verbatim>\<open>queue_t *\<close> back-reference can name.\<close>

datatype queue_id = RUN_QUEUE | SLEEP_QUEUE

text \<open>
  The two ways the kernel stops. Modelled from the spec: kernel.c, where
  \<^verbatim>\<open>kernel_panic\<close> is defined, is not among the sources; the spec (6, 7) has an
  invariant violation halt the entire kernel with a diagnostic message, with no
  recovery. \<open>Panic\<close> carries the message. The other way is the dereference of a null
  pointer.
\<close>

datatype error = Panic string | Null_dereference

text \<open>
  The fields of the saved execution context that the code reads or writes.
\<close>

record trapframe_t =
  eax :: "32 word"
  ebx :: "32 word"
  eip :: "32 word"
  eflags :: "32 word"
  cs :: "32 word"
  ds :: "32 word"
  es :: "32 word"
  fs :: "32 word"
  gs :: "32 word"
  esp :: "32 word"

definition trapframe_zero :: trapframe_t where
  "trapframe_zero = \<lparr>eax = 0, ebx = 0, eip = 0, eflags = 0, cs = 0, ds = 0, es = 0,
     fs = 0, gs = 0, esp = 0\<rparr>"

text \<open>
  A C \<^verbatim>\<open>int\<close> is an integer in the range of 32 bits, two's complement. C leaves signed
  overflow undefined; the compiled code wraps around, and so does the model: the
  result of every addition and multiplication on \<^verbatim>\<open>int\<close>s goes through \<open>int32\<close>.
  \<open>INT_MAX\<close> is the largest \<^verbatim>\<open>int\<close>.
\<close>

definition int32 :: "int \<Rightarrow> int" where
  "int32 x = (x + 2147483648) mod 4294967296 - 2147483648"

definition INT_MAX :: int where
  "INT_MAX = 2147483647"

text \<open>
  The process control block. Pointers are options, \<open>None\<close> being NULL:
  \<^item> \<open>stack = Some e\<close> is \<^verbatim>\<open>&proc_stack[e][PROC_STACK_SIZE]\<close>, the top of slot \<open>e\<close>'s stack;
  \<^item> \<open>trapframe = Some e\<close> is the \<^verbatim>\<open>trapframe_t\<close> laid over the top of slot \<open>e\<close>'s stack
    (\<^verbatim>\<open>proc->stack - sizeof(trapframe_t)\<close>);
  \<^item> \<open>scheduler_queue\<close> is the queue back-reference;
  \<^item> \<open>io\<close> holds the I/O buffer handles.
  The field \<^verbatim>\<open>type\<close> is called \<open>ptype\<close> here.
\<close>

record proc_t =
  pid :: int
  state :: state_t
  ptype :: proc_type_t
  name :: string
  start_time :: int
  run_time :: int
  cpu_time :: int
  sleep_time :: int
  stack :: "nat option"
  trapframe :: "nat option"
  scheduler_queue :: "queue_id option"
  io :: "nat option list"

definition NUL :: char where
  "NUL = CHR 0x00"

text \<open>What \<^verbatim>\<open>memset(proc, 0, sizeof(proc_t))\<close> leaves in a slot.\<close>

definition proc_zero :: "config \<Rightarrow> proc_t" where
  "proc_zero c = \<lparr>pid = 0, state = NONE, ptype = PROC_TYPE_NONE,
     name = replicate (PROC_NAME_LEN c) NUL, start_time = 0, run_time = 0, cpu_time = 0,
     sleep_time = 0, stack = None, trapframe = None, scheduler_queue = None,
     io = replicate (PROC_IO_MAX c) None\<rparr>"

subsection \<open>The queue utility\<close>

text \<open>
  Modelled from the spec: queue.c and queue.h (\<^verbatim>\<open>queue_t\<close>, \<^verbatim>\<open>queue_init\<close>, \<^verbatim>\<open>queue_in\<close>,
  \<^verbatim>\<open>queue_out\<close>, \<^verbatim>\<open>queue_is_empty\<close>) are not among the sources. The spec (4.2) describes
  a bounded circular FIFO of integers of fixed capacity that preserves insertion order,
  with \<open>enqueue(v) \<rightarrow> Ok | Full\<close>, \<open>dequeue() \<rightarrow> v | Empty\<close>, \<open>size\<close> and
  \<open>is_empty\<close>. A queue is represented by its entries in dequeue order, head first;
  the field \<^verbatim>\<open>size\<close> that the scheduler's loops read is the number of entries, the
  \<open>length\<close> of the list. \<open>None\<close> is the nonzero status (Full, Empty).
\<close>

type_synonym queue_t = "int list"

definition queue_init :: queue_t where
  "queue_init = []"

definition queue_in :: "config \<Rightarrow> queue_t \<Rightarrow> int \<Rightarrow> queue_t option" where
  "queue_in c q v = (if length q < QUEUE_SIZE c then Some (q @ [v]) else None)"

definition queue_out :: "queue_t \<Rightarrow> (int \<times> queue_t) option" where
  "queue_out q = (case q of [] \<Rightarrow> None | v # vs \<Rightarrow> Some (v, vs))"

definition queue_is_empty :: "queue_t \<Rightarrow> bool" where
  "queue_is_empty q = (q = [])"

subsection \<open>The kernel state\<close>

text \<open>
  The globals of kproc.c and scheduler.c, together with \<^verbatim>\<open>active_proc\<close> (kernel.c) and
  the tick counter behind \<^verbatim>\<open>timer_get_ticks()\<close> (timer.c). A \<^verbatim>\<open>proc_t *\<close> into the table
  is the index of its slot, so \<^verbatim>\<open>proc_to_entry\<close> is the identity on it.
  \<open>proc_stack ! e\<close> is the trapframe at the top of \<^verbatim>\<open>proc_stack[e]\<close>, the only part of
  a stack this code writes field by field. \<open>user_mem\<close> lists the buffers of the
  callers, each with the nonzero address at which it starts and the run of bytes found
  there; buffers are taken to lie apart from each other and from the kernel's own
  objects.
\<close>

record kernel =
  next_pid :: int
  proc_allocator :: queue_t
  proc_table :: "proc_t list"
  proc_stack :: "trapframe_t list"
  run_queue :: queue_t
  sleep_queue :: queue_t
  active_proc :: "nat option"
  timer_ticks :: int
  user_mem :: "(32 word \<times> string) list"

definition read_mem :: "kernel \<Rightarrow> 32 word \<Rightarrow> string" where
  "read_mem s a = (case map_of (user_mem s) a of None \<Rightarrow> [] | Some bs \<Rightarrow> bs)"

definition write_mem :: "32 word \<Rightarrow> string \<Rightarrow> kernel \<Rightarrow> kernel" where
  "write_mem a bs s = s\<lparr>user_mem := (a, bs) # user_mem s\<rparr>"

definition timer_get_ticks :: "kernel \<Rightarrow> int" where
  "timer_get_ticks s = timer_ticks s"

definition queue_of :: "kernel \<Rightarrow> queue_id \<Rightarrow> queue_t" where
  "queue_of s qid = (case qid of RUN_QUEUE \<Rightarrow> run_queue s | SLEEP_QUEUE \<Rightarrow> sleep_queue s)"

definition set_queue :: "queue_id \<Rightarrow> queue_t \<Rightarrow> kernel \<Rightarrow> kernel" where
  "set_queue qid q s =
     (case qid of RUN_QUEUE \<Rightarrow> s\<lparr>run_queue := q\<rparr> | SLEEP_QUEUE \<Rightarrow> s\<lparr>sleep_queue := q\<rparr>)"

text \<open>Writing through a \<^verbatim>\<open>proc_t *\<close>: the slot \<open>i\<close> of the table is replaced.\<close>

definition upd_proc :: "nat \<Rightarrow> (proc_t \<Rightarrow> proc_t) \<Rightarrow> kernel \<Rightarrow> kernel" where
  "upd_proc i f s = s\<lparr>proc_table := (proc_table s)[i := f (proc_table s ! i)]\<rparr>"

section \<open>kproc.c: lookup\<close>

fun pid_to_proc_from :: "proc_t list \<Rightarrow> nat \<Rightarrow> int \<Rightarrow> nat option" where
  "pid_to_proc_from [] i p = None"
| "pid_to_proc_from (x # xs) i p =
     (if pid x = p \<and> state x \<noteq> NONE then Some i else pid_to_proc_from xs (Suc i) p)"

definition pid_to_proc :: "kernel \<Rightarrow> int \<Rightarrow> nat option" where
  "pid_to_proc s p = pid_to_proc_from (proc_table s) 0 p"

definition proc_to_entry :: "nat \<Rightarrow> int" where
  "proc_to_entry i = int i"

section \<open>scheduler.c\<close>

definition scheduler_timer :: "kernel \<Rightarrow> kernel" where
  "scheduler_timer s =
     (case active_proc s of
        None \<Rightarrow> s
      | Some i \<Rightarrow> upd_proc i (\<lambda>p. p\<lparr>run_time := int32 (run_time p + 1),
                                    cpu_time := int32 (cpu_time p + 1)\<rparr>) s)"

definition scheduler_add :: "config \<Rightarrow> nat option \<Rightarrow> kernel \<Rightarrow> error + kernel" where
  "scheduler_add c proc s =
     (case proc of
        None \<Rightarrow> Inl (Panic ''Invalid process!'')
      | Some i \<Rightarrow>
          (let s1 = upd_proc i
                 (\<lambda>p. p\<lparr>scheduler_queue := Some RUN_QUEUE, state := IDLE, cpu_time := 0\<rparr>) s
           in case queue_in c (run_queue s1) (pid (proc_table s1 ! i)) of
                None \<Rightarrow> Inl (Panic ''Unable to add the process to the scheduler'')
              | Some q \<Rightarrow> Inr (s1\<lparr>run_queue := q\<rparr>)))"

text \<open>
  The loop of \<^verbatim>\<open>scheduler_remove\<close>:
  \<^verbatim>\<open>for (int i = 0; i < proc->scheduler_queue->size; i++)\<close>. The bound is read from the
  queue at every iteration, so it is the current length of the queue, which drops by
  one when the entry of the process is taken out and not put back.
\<close>

function remove_loop :: "config \<Rightarrow> int \<Rightarrow> nat \<Rightarrow> queue_t \<Rightarrow> error + queue_t" where
  "remove_loop c p i q =
     (if i < length q then
        (case queue_out q of
           None \<Rightarrow> Inl (Panic ''Unable to queue out the process entry'')
         | Some (v, q1) \<Rightarrow>
             if p = v then remove_loop c p (Suc i) q1
             else (case queue_in c q1 v of
                     None \<Rightarrow> Inl (Panic ''Unable to queue process back to the run queue'')
                   | Some q2 \<Rightarrow> remove_loop c p (Suc i) q2))
      else Inr q)"
  by pat_completeness auto
termination
  by (relation "measure (\<lambda>(c, p, i, q). length q - i)")
     (auto simp: queue_out_def queue_in_def split: list.splits if_splits)

definition scheduler_remove :: "config \<Rightarrow> nat option \<Rightarrow> kernel \<Rightarrow> error + kernel" where
  "scheduler_remove c proc s =
     (case proc of
        None \<Rightarrow> Inl (Panic ''Invalid process!'')
      | Some i \<Rightarrow>
          (case (case scheduler_queue (proc_table s ! i) of
                   None \<Rightarrow> Inr s
                 | Some qid \<Rightarrow>
                     (case remove_loop c (pid (proc_table s ! i)) 0 (queue_of s qid) of
                        Inl e \<Rightarrow> Inl e
                      | Inr q \<Rightarrow>
                          Inr (upd_proc i (\<lambda>p. p\<lparr>scheduler_queue := None\<rparr>)
                                 (set_queue qid q s)))) of
             Inl e \<Rightarrow> Inl e
           | Inr s1 \<Rightarrow>
               Inr (if active_proc s1 = Some i then s1\<lparr>active_proc := None\<rparr> else s1)))"

definition scheduler_sleep :: "config \<Rightarrow> nat option \<Rightarrow> int \<Rightarrow> kernel \<Rightarrow> error + kernel" where
  "scheduler_sleep c proc time s =
     (case proc of
        None \<Rightarrow> Inl Null_dereference
      | Some i \<Rightarrow>
          (let s1 = upd_proc i (\<lambda>p. p\<lparr>sleep_time := int32 (timer_get_ticks s + time)\<rparr>) s;
               s2 = upd_proc i (\<lambda>p. p\<lparr>state := SLEEPING\<rparr>) s1
           in case scheduler_remove c (Some i) s2 of
                Inl e \<Rightarrow> Inl e
              | Inr s3 \<Rightarrow>
                  Inr (case queue_in c (sleep_queue s3) (pid (proc_table s3 ! i)) of
                         None \<Rightarrow> s3
                       | Some q \<Rightarrow> s3\<lparr>sleep_queue := q\<rparr>)))"

text \<open>
  The sweep of the sleep queue in \<^verbatim>\<open>scheduler_run\<close>:
  \<^verbatim>\<open>for (int i = 0; i < sleep_queue.size; i++)\<close>, again with the bound read at every
  iteration. \<open>now\<close> is \<^verbatim>\<open>current_time\<close>, read once before the loop.
\<close>

function sweep_loop :: "config \<Rightarrow> int \<Rightarrow> nat \<Rightarrow> kernel \<Rightarrow> error + kernel" where
  "sweep_loop c now i s =
     (if i < length (sleep_queue s) then
        (case queue_out (sleep_queue s) of
           None \<Rightarrow> Inl (Panic ''Unable to dequeue process from sleep queue'')
         | Some (sleep_pid, q1) \<Rightarrow>
             (let s1 = s\<lparr>sleep_queue := q1\<rparr> in
              case pid_to_proc s1 sleep_pid of
                None \<Rightarrow> Inl (Panic ''Invalid process in sleep queue'')
              | Some j \<Rightarrow>
                  if now \<ge> sleep_time (proc_table s1 ! j) then
                    (case scheduler_add c (Some j) s1 of
                       Inl e \<Rightarrow> Inl e
                     | Inr s2 \<Rightarrow> sweep_loop c now (Suc i) s2)
                  else
                    sweep_loop c now (Suc i)
                      (case queue_in c (sleep_queue s1) (pid (proc_table s1 ! j)) of
                         None \<Rightarrow> s1
                       | Some q2 \<Rightarrow> s1\<lparr>sleep_queue := q2\<rparr>)))
      else Inr s)"
  by pat_completeness auto
termination
  by (relation "measure (\<lambda>(c, now, i, s). length (sleep_queue s) - i)")
     (auto simp: queue_out_def queue_in_def scheduler_add_def upd_proc_def Let_def
           split: list.splits if_splits option.splits)

text \<open>
  \<^verbatim>\<open>scheduler_run\<close>, in the order of its statements: the active reference to a process
  that is no longer ACTIVE is dropped; an active process whose timeslice is used up is
  unscheduled (and put back on the run queue unless it is the idle task); when no
  process is active, the sleep queue is swept and the next process is taken from the
  run queue, pid 0 when it is empty. The trace line after \<^verbatim>\<open>pid_to_proc\<close> reads
  \<^verbatim>\<open>active_proc->pid\<close> before the null check that follows it.
\<close>

definition run_unschedule :: "config \<Rightarrow> kernel \<Rightarrow> error + kernel" where
  "run_unschedule c s =
     (case active_proc s of
        None \<Rightarrow> Inr s
      | Some i \<Rightarrow>
          if cpu_time (proc_table s ! i) \<ge> SCHEDULER_TIMESLICE c then
            (let s1 = upd_proc i (\<lambda>p. p\<lparr>cpu_time := 0\<rparr>) s in
             case (if pid (proc_table s1 ! i) \<noteq> 0 then scheduler_add c (Some i) s1
                   else Inr (upd_proc i (\<lambda>p. p\<lparr>state := IDLE\<rparr>) s1)) of
               Inl e \<Rightarrow> Inl e
             | Inr s2 \<Rightarrow> Inr (s2\<lparr>active_proc := None\<rparr>))
          else Inr s)"

definition run_select :: "config \<Rightarrow> kernel \<Rightarrow> error + kernel" where
  "run_select c s =
     (case active_proc s of
        Some i \<Rightarrow> Inr s
      | None \<Rightarrow>
          (case (if \<not> queue_is_empty (sleep_queue s)
                 then sweep_loop c (timer_get_ticks s) 0 s else Inr s) of
             Inl e \<Rightarrow> Inl e
           | Inr s1 \<Rightarrow>
               (let (p, s2) = (case queue_out (run_queue s1) of
                                 None \<Rightarrow> (0, s1)
                               | Some (v, q) \<Rightarrow> (v, s1\<lparr>run_queue := q\<rparr>));
                    s3 = s2\<lparr>active_proc := pid_to_proc s2 p\<rparr>
                in case active_proc s3 of
                     None \<Rightarrow> Inl Null_dereference
                   | Some j \<Rightarrow> Inr s3)))"

definition scheduler_run :: "config \<Rightarrow> kernel \<Rightarrow> error + kernel" where
  "scheduler_run c s =
     (let s0 = (case active_proc s of
                  None \<Rightarrow> s
                | Some i \<Rightarrow>
                    if state (proc_table s ! i) \<noteq> ACTIVE then s\<lparr>active_proc := None\<rparr> else s)
      in case run_unschedule c s0 of
           Inl e \<Rightarrow> Inl e
         | Inr s1 \<Rightarrow>
             (case run_select c s1 of
                Inl e \<Rightarrow> Inl e
              | Inr s2 \<Rightarrow>
                  (case active_proc s2 of
                     None \<Rightarrow> Inl (Panic ''Unable to schedule a process!'')
                   | Some i \<Rightarrow> Inr (upd_proc i (\<lambda>p. p\<lparr>state := ACTIVE\<rparr>) s2))))"

text \<open>\<^verbatim>\<open>scheduler_init\<close> empties both queues and registers \<^verbatim>\<open>scheduler_timer\<close> as a timer
  callback.\<close>

definition scheduler_init :: "kernel \<Rightarrow> kernel" where
  "scheduler_init s = s\<lparr>run_queue := queue_init, sleep_queue := queue_init\<rparr>"

text \<open>
  Modelled from the spec: timer.c is not among the sources. The timer provides a
  tick counter and calls the registered callback once per timer interrupt (spec 4.3,
  6): a tick advances the counter by one and runs \<^verbatim>\<open>scheduler_timer\<close>. The counter is
  kept as the \<^verbatim>\<open>int\<close> that \<^verbatim>\<open>timer_get_ticks()\<close> returns to this code, so it wraps
  around like every other \<^verbatim>\<open>int\<close>.
\<close>

definition timer_tick :: "kernel \<Rightarrow> kernel" where
  "timer_tick s = scheduler_timer (s\<lparr>timer_ticks := int32 (timer_ticks s + 1)\<rparr>)"

section \<open>kproc.c: creation and destruction\<close>

text \<open>
  \<^verbatim>\<open>strncpy(dest, src, n)\<close> on byte lists: the characters of \<open>src\<close> before its first NUL,
  cut or padded with NULs to \<open>n\<close> bytes, replace the first \<open>n\<close> bytes of \<open>dest\<close>.
\<close>

definition c_str :: "string \<Rightarrow> string" where
  "c_str bs = takeWhile (\<lambda>ch. ch \<noteq> NUL) bs"

definition strncpy :: "string \<Rightarrow> string \<Rightarrow> nat \<Rightarrow> string" where
  "strncpy dest src n =
     take n (c_str src) @ replicate (n - length (c_str src)) NUL @ drop n dest"

text \<open>
  \<^verbatim>\<open>kproc_create\<close>. The slot comes from \<^verbatim>\<open>queue_out(&proc_allocator, NULL)\<close>, whose value
  the code takes as the entry and compares with -1; with queue.c absent, this follows
  the spec (4.1): the call pops a free slot index, or fails when there is none.
  Fields the code does not assign (\<open>sleep_time\<close>, \<open>io\<close>, the registers of the
  trapframe other than those listed) keep what the slot held.
\<close>

definition kproc_create ::
  "config \<Rightarrow> 32 word \<Rightarrow> string \<Rightarrow> proc_type_t \<Rightarrow> kernel \<Rightarrow> error + (int \<times> kernel)" where
  "kproc_create c proc_ptr proc_name proc_type s =
     (case queue_out (proc_allocator s) of
        None \<Rightarrow> Inr (- 1, s)
      | Some (entry, qa) \<Rightarrow>
          if entry = - 1 then Inr (- 1, s\<lparr>proc_allocator := qa\<rparr>)
          else
            (let e = nat entry;
                 s1 = s\<lparr>proc_allocator := qa\<rparr>;
                 s2 = upd_proc e (\<lambda>p. p\<lparr>stack := Some e, trapframe := Some e\<rparr>) s1;
                 s3 = (upd_proc e (\<lambda>p. p\<lparr>pid := next_pid s2\<rparr>) s2)
                        \<lparr>next_pid := int32 (next_pid s2 + 1)\<rparr>;
                 s4 = upd_proc e (\<lambda>p. p\<lparr>state := IDLE, ptype := proc_type,
                        start_time := timer_get_ticks s3, run_time := 0, cpu_time := 0\<rparr>) s3;
                 s5 = upd_proc e (\<lambda>p. p\<lparr>name :=
                        (strncpy (name p) proc_name (PROC_NAME_LEN c))
                          [PROC_NAME_LEN c - 1 := NUL]\<rparr>) s4;
                 s6 = s5\<lparr>proc_stack := (proc_stack s5)[e := (proc_stack s5 ! e)
                        \<lparr>eip := proc_ptr, eflags := EF_DEFAULT_VALUE c OR EF_INTR c,
                         cs := get_cs c, ds := get_ds c, es := get_es c, fs := get_fs c,
                         gs := get_gs c, esp := stack_top_addr c e\<rparr>]\<rparr>
             in case scheduler_add c (Some e) s6 of
                  Inl err \<Rightarrow> Inl err
                | Inr s7 \<Rightarrow> Inr (pid (proc_table s7 ! e), s7)))"

text \<open>
  \<^verbatim>\<open>memset(p, 0, PROC_STACK_SIZE)\<close> on a stack pointer. From \<open>Some e\<close>, the top of slot
  \<open>e\<close>'s stack, the bytes written are those of the next slot's stack, when there is
  one. From NULL the bytes written start at address 0, where no object of the kernel
  lies: the process stacks are left as they are.
\<close>

definition memset_stack :: "nat option \<Rightarrow> trapframe_t list \<Rightarrow> trapframe_t list" where
  "memset_stack p stacks =
     (case p of
        None \<Rightarrow> stacks
      | Some e \<Rightarrow> if Suc e < length stacks then stacks[Suc e := trapframe_zero] else stacks)"

text \<open>
  \<^verbatim>\<open>kproc_destroy\<close>. The second \<^verbatim>\<open>memset\<close> reads \<^verbatim>\<open>proc->stack\<close> from the slot that the first
  one has just zeroed. The result of \<^verbatim>\<open>queue_in\<close> on the allocator is not looked at.
\<close>

definition kproc_destroy :: "config \<Rightarrow> nat option \<Rightarrow> kernel \<Rightarrow> error + (int \<times> kernel)" where
  "kproc_destroy c proc s =
     (case proc of
        None \<Rightarrow> Inr (- 1, s)
      | Some i \<Rightarrow>
          if state (proc_table s ! i) = NONE \<or> pid (proc_table s ! i) = 0 then Inr (- 1, s)
          else
            (case scheduler_remove c (Some i) s of
               Inl err \<Rightarrow> Inl err
             | Inr s1 \<Rightarrow>
                 (let s2 = upd_proc i (\<lambda>p. proc_zero c) s1;
                      s3 = s2\<lparr>proc_stack :=
                             memset_stack (stack (proc_table s2 ! i)) (proc_stack s2)\<rparr>;
                      s4 = (case queue_in c (proc_allocator s3) (proc_to_entry i) of
                              None \<Rightarrow> s3
                            | Some q \<Rightarrow> s3\<lparr>proc_allocator := q\<rparr>)
                  in Inr (0, s4))))"

text \<open>
  \<^verbatim>\<open>kproc_init\<close>: every slot gets pid -1, the allocator receives the indices
  \<open>0 .. PROC_MAX - 1\<close>, and the idle process is created. (The loop that writes a zero
  into the last byte of each stack changes nothing in the zero-initialised stacks and is
  left out.)
\<close>

definition kproc_init :: "config \<Rightarrow> kernel \<Rightarrow> error + kernel" where
  "kproc_init c s =
     (let s1 = s\<lparr>proc_table := map (\<lambda>p. p\<lparr>pid := - 1\<rparr>) (proc_table s)\<rparr>;
          s2 = s1\<lparr>proc_allocator :=
                 fold (\<lambda>i q. case queue_in c q (int i) of None \<Rightarrow> q | Some q' \<Rightarrow> q')
                   [0..<PROC_MAX c] queue_init\<rparr>
      in case kproc_create c (kproc_idle_addr c) ''kernel_idle'' PROC_TYPE_KERNEL s2 of
           Inl err \<Rightarrow> Inl err
         | Inr (idle_pid, s3) \<Rightarrow>
             if idle_pid = - 1 then Inl (Panic ''Failed to create idle process'')
             else Inr s3)"

text \<open>
  The state in which the kernel starts: the zero-initialised globals, both queues
  empty. Modelled from the spec: main.c, which calls the initialisation functions, is
  not among the sources; the spec (3, 4.1) has the table, the allocator and the idle
  process set up once at initialization. \<open>kernel_boot\<close> initialises the scheduler
  first, so that the idle process created by \<^verbatim>\<open>kproc_init\<close> stays registered; the
  other order is a second way to start (see \<open>reachable_by\<close>).
\<close>

definition boot_state :: "config \<Rightarrow> (32 word \<times> string) list \<Rightarrow> kernel" where
  "boot_state c um = \<lparr>next_pid = 0, proc_allocator = [],
     proc_table = replicate (PROC_MAX c) (proc_zero c),
     proc_stack = replicate (PROC_MAX c) trapframe_zero,
     run_queue = [], sleep_queue = [], active_proc = None, timer_ticks = 0,
     user_mem = um\<rparr>"

definition kernel_boot :: "config \<Rightarrow> (32 word \<times> string) list \<Rightarrow> error + kernel" where
  "kernel_boot c um = kproc_init c (scheduler_init (boot_state c um))"

section \<open>ksyscall.c\<close>

definition ksyscall_sys_get_time :: "kernel \<Rightarrow> int" where
  "ksyscall_sys_get_time s = timer_get_ticks s sdiv 100"

definition ksyscall_sys_get_name :: "config \<Rightarrow> 32 word \<Rightarrow> kernel \<Rightarrow> int \<times> kernel" where
  "ksyscall_sys_get_name c buf s =
     (if buf = 0 then (- 1, s)
      else (0, write_mem buf
                 (strncpy (read_mem s buf) (OS_NAME c) (length (OS_NAME c) + 1)) s))"

definition ksyscall_proc_sleep :: "config \<Rightarrow> int \<Rightarrow> kernel \<Rightarrow> error + (int \<times> kernel)" where
  "ksyscall_proc_sleep c seconds s =
     (case active_proc s of
        None \<Rightarrow> Inr (- 1, s)
      | Some i \<Rightarrow>
          (case scheduler_sleep c (active_proc s) (int32 (seconds * 100)) s of
             Inl e \<Rightarrow> Inl e
           | Inr s1 \<Rightarrow> Inr (0, s1)))"

definition ksyscall_proc_exit :: "config \<Rightarrow> kernel \<Rightarrow> error + (int \<times> kernel)" where
  "ksyscall_proc_exit c s =
     (case active_proc s of
        None \<Rightarrow> Inr (- 1, s)
      | Some i \<Rightarrow>
          (case scheduler_run c (upd_proc i (\<lambda>p. p\<lparr>state := NONE\<rparr>) s) of
             Inl e \<Rightarrow> Inl e
           | Inr s1 \<Rightarrow> Inr (0, s1)))"

definition ksyscall_proc_get_pid :: "kernel \<Rightarrow> int" where
  "ksyscall_proc_get_pid s =
     (case active_proc s of None \<Rightarrow> - 1 | Some i \<Rightarrow> pid (proc_table s ! i))"

definition ksyscall_proc_get_name :: "config \<Rightarrow> 32 word \<Rightarrow> kernel \<Rightarrow> int \<times> kernel" where
  "ksyscall_proc_get_name c buf s =
     (case active_proc s of
        None \<Rightarrow> (- 1, s)
      | Some i \<Rightarrow>
          if buf = 0 then (- 1, s)
          else (0, write_mem buf
                     (strncpy (read_mem s buf) (name (proc_table s ! i)) (PROC_NAME_LEN c)) s))"

text \<open>\<^verbatim>\<open>active_proc->trapframe->eax = rc\<close>, through the active reference as it is when
  the handler has returned.\<close>

definition write_eax :: "int \<Rightarrow> kernel \<Rightarrow> error + kernel" where
  "write_eax rc s =
     (case active_proc s of
        None \<Rightarrow> Inl Null_dereference
      | Some i \<Rightarrow>
          (case trapframe (proc_table s ! i) of
             None \<Rightarrow> Inl Null_dereference
           | Some k \<Rightarrow>
               Inr (s\<lparr>proc_stack := (proc_stack s)[k := (proc_stack s ! k)\<lparr>eax := word_of_int rc\<rparr>]\<rparr>)))"

text \<open>
  The dispatcher. It has five branches; the handlers \<^verbatim>\<open>ksyscall_proc_sleep\<close>,
  \<^verbatim>\<open>ksyscall_io_read\<close>, \<^verbatim>\<open>ksyscall_io_write\<close> and \<^verbatim>\<open>ksyscall_io_flush\<close> of the same file
  are called from none of them.
\<close>

definition ksyscall_irq_handler :: "config \<Rightarrow> kernel \<Rightarrow> error + kernel" where
  "ksyscall_irq_handler c s =
     (case active_proc s of
        None \<Rightarrow> Inl (Panic ''Invalid process'')
      | Some i \<Rightarrow>
          (case trapframe (proc_table s ! i) of
             None \<Rightarrow> Inl (Panic ''Invalid trapframe'')
           | Some k \<Rightarrow>
               (let tf = proc_stack s ! k in
                if eax tf = SYSCALL_SYS_GET_TIME c then
                  write_eax (ksyscall_sys_get_time s) s
                else if eax tf = SYSCALL_SYS_GET_NAME c then
                  (let (rc, s1) = ksyscall_sys_get_name c (ebx tf) s in write_eax rc s1)
                else if eax tf = SYSCALL_PROC_EXIT c then
                  (case ksyscall_proc_exit c s of
                     Inl e \<Rightarrow> Inl e
                   | Inr (rc, s1) \<Rightarrow> write_eax rc s1)
                else if eax tf = SYSCALL_PROC_GET_PID c then
                  write_eax (ksyscall_proc_get_pid s) s
                else if eax tf = SYSCALL_PROC_GET_NAME c then
                  (let (rc, s1) = ksyscall_proc_get_name c (ebx tf) s in write_eax rc s1)
                else Inl (Panic ''Invalid system call''))))"

section \<open>Executions\<close>

text \<open>
  The entry points through which the rest of the kernel drives this core: process
  creation, destruction of the process with a given pid, the scheduling decision, the
  timer tick, the syscall trap raised by the active process with the registers \<open>eax\<close>
  and \<open>ebx\<close> it has loaded, and the library-level sleep request. An execution is a
  boot followed by a list of such calls; it stops at the first call that halts the
  kernel. The boot is \<open>kernel_boot\<close> or, with the two initialisation calls in the
  other order, \<^verbatim>\<open>kproc_init\<close> followed by \<^verbatim>\<open>scheduler_init\<close>.

  A syscall trap or a sleep request comes from the code of the running process. The
  idle process runs \<^verbatim>\<open>kproc_idle\<close> (kproc.c), a loop that enables interrupts and halts
  the CPU and makes no such request; the code of any other process is whatever address
  was given to \<^verbatim>\<open>kproc_create\<close>. So these two calls occur only when the running
  process is not the one with pid 0 (\<open>can_occur\<close>).
\<close>

datatype kcall =
    K_create "32 word" string proc_type_t
  | K_destroy int
  | K_run
  | K_tick
  | K_syscall "32 word" "32 word"
  | K_sleep int

definition load_regs :: "32 word \<Rightarrow> 32 word \<Rightarrow> kernel \<Rightarrow> kernel" where
  "load_regs a b s =
     (case active_proc s of
        None \<Rightarrow> s
      | Some i \<Rightarrow>
          (case trapframe (proc_table s ! i) of
             None \<Rightarrow> s
           | Some k \<Rightarrow>
               s\<lparr>proc_stack := (proc_stack s)[k := (proc_stack s ! k)\<lparr>eax := a, ebx := b\<rparr>]\<rparr>))"

definition kstep :: "config \<Rightarrow> kcall \<Rightarrow> kernel \<Rightarrow> error + kernel" where
  "kstep c call s =
     (case call of
        K_create ptr nm ty \<Rightarrow>
          (case kproc_create c ptr nm ty s of Inl e \<Rightarrow> Inl e | Inr (r, s') \<Rightarrow> Inr s')
      | K_destroy p \<Rightarrow>
          (case kproc_destroy c (pid_to_proc s p) s of Inl e \<Rightarrow> Inl e | Inr (r, s') \<Rightarrow> Inr s')
      | K_run \<Rightarrow> scheduler_run c s
      | K_tick \<Rightarrow> Inr (timer_tick s)
      | K_syscall a b \<Rightarrow> ksyscall_irq_handler c (load_regs a b s)
      | K_sleep secs \<Rightarrow>
          (case ksyscall_proc_sleep c secs s of Inl e \<Rightarrow> Inl e | Inr (r, s') \<Rightarrow> Inr s'))"

definition idle_running :: "kernel \<Rightarrow> bool" where
  "idle_running s =
     (case active_proc s of None \<Rightarrow> False | Some i \<Rightarrow> pid (proc_table s ! i) = 0)"

definition can_occur :: "kernel \<Rightarrow> kcall \<Rightarrow> bool" where
  "can_occur s call =
     (case call of
        K_syscall a b \<Rightarrow> \<not> idle_running s
      | K_sleep secs \<Rightarrow> \<not> idle_running s
      | _ \<Rightarrow> True)"

fun exec :: "config \<Rightarrow> kcall list \<Rightarrow> kernel \<Rightarrow> error + kernel" where
  "exec c [] s = Inr s"
| "exec c (k # ks) s = (case kstep c k s of Inl e \<Rightarrow> Inl e | Inr s' \<Rightarrow> exec c ks s')"

text \<open>\<open>occurs c ks s\<close>: each call of the list can occur in the state in which it is
  made, when the list is run from \<open>s\<close>. \<open>creations ks\<close> counts its calls of
  \<^verbatim>\<open>kproc_create\<close>.\<close>

fun occurs :: "config \<Rightarrow> kcall list \<Rightarrow> kernel \<Rightarrow> bool" where
  "occurs c [] s = True"
| "occurs c (k # ks) s =
     (can_occur s k \<and> (case kstep c k s of Inl e \<Rightarrow> True | Inr s' \<Rightarrow> occurs c ks s'))"

fun creation :: "kcall \<Rightarrow> nat" where
  "creation (K_create ptr nm ty) = 1"
| "creation call = 0"

definition creations :: "kcall list \<Rightarrow> nat" where
  "creations ks = sum_list (map creation ks)"

text \<open>\<open>reachable_by c n s\<close>: the state \<open>s\<close> is met by an execution that has called
  \<^verbatim>\<open>kproc_create\<close> \<open>n\<close> times since the boot. The count matters because the pid counter
  is an \<^verbatim>\<open>int\<close>: it wraps around after \<open>INT_MAX\<close> creations.\<close>

inductive reachable_by :: "config \<Rightarrow> nat \<Rightarrow> kernel \<Rightarrow> bool" for c :: config where
  boot: "kernel_boot c um = Inr s \<Longrightarrow> reachable_by c 0 s"
| boot_late: "kproc_init c (boot_state c um) = Inr s \<Longrightarrow> reachable_by c 0 (scheduler_init s)"
| step: "reachable_by c n s \<Longrightarrow> can_occur s call \<Longrightarrow> kstep c call s = Inr s' \<Longrightarrow>
         reachable_by c (n + creation call) s'"

definition reachable :: "config \<Rightarrow> kernel \<Rightarrow> bool" where
  "reachable c s \<longleftrightarrow> (\<exists>n. reachable_by c n s)"

section \<open>State predicates\<close>

text \<open>Every process whose state is ACTIVE is the one the active reference points to,
  and the reference points into the table.\<close>

definition active_inv :: "kernel \<Rightarrow> bool" where
  "active_inv s \<longleftrightarrow>
     (\<forall>i. active_proc s = Some i \<longrightarrow> i < length (proc_table s)) \<and>
     (\<forall>j < length (proc_table s). state (proc_table s ! j) = ACTIVE \<longrightarrow> active_proc s = Some j)"

definition exactly_one_active :: "kernel \<Rightarrow> bool" where
  "exactly_one_active s \<longleftrightarrow>
     (\<exists>i < length (proc_table s). active_proc s = Some i \<and>
        (\<forall>j < length (proc_table s). (state (proc_table s ! j) = ACTIVE) = (j = i)))"

text \<open>The allocator holds indices of the table. \<open>same_alloc\<close> relates two states
  that agree on the pid counter, the allocator and the size of the table.\<close>

definition alloc_inv :: "kernel \<Rightarrow> bool" where
  "alloc_inv s \<longleftrightarrow> (\<forall>e \<in> set (proc_allocator s). 0 \<le> e \<and> nat e < length (proc_table s))"

definition same_alloc :: "kernel \<Rightarrow> kernel \<Rightarrow> bool" where
  "same_alloc s s' \<longleftrightarrow>
     next_pid s' = next_pid s \<and> proc_allocator s' = proc_allocator s \<and>
     length (proc_table s') = length (proc_table s)"

text \<open>
  The idle process: slot 0 of the table holds a live process with pid 0, the slot is
  not in the allocator, pid 0 is not in the sleep queue and is in the run queue at
  most once. \<open>same_procs\<close> relates two states in which every slot has kept its pid and
  no live slot has become free; \<open>idle_kept\<close> adds that the allocator is the same, that
  pid 0 is not in the sleep queue and that it has not been added to the run queue.
\<close>

definition idle_inv :: "kernel \<Rightarrow> bool" where
  "idle_inv s \<longleftrightarrow>
     proc_table s \<noteq> [] \<and> pid (proc_table s ! 0) = 0 \<and> state (proc_table s ! 0) \<noteq> NONE \<and>
     0 \<notin> set (proc_allocator s) \<and> 0 \<notin> set (sleep_queue s) \<and>
     count_list (run_queue s) 0 \<le> 1"

definition same_procs :: "kernel \<Rightarrow> kernel \<Rightarrow> bool" where
  "same_procs s s' \<longleftrightarrow>
     length (proc_table s') = length (proc_table s) \<and>
     (\<forall>j < length (proc_table s).
        pid (proc_table s' ! j) = pid (proc_table s ! j) \<and>
        (state (proc_table s ! j) \<noteq> NONE \<longrightarrow> state (proc_table s' ! j) \<noteq> NONE))"

definition idle_kept :: "kernel \<Rightarrow> kernel \<Rightarrow> bool" where
  "idle_kept s s' \<longleftrightarrow>
     same_procs s s' \<and> proc_allocator s' = proc_allocator s \<and>
     0 \<notin> set (sleep_queue s') \<and>
     count_list (run_queue s') 0 \<le> count_list (run_queue s) 0"

section \<open>A small configuration and some of its states\<close>

text \<open>
  Four slots (the idle process and three more), queues of the same capacity, a
  timeslice of one tick. The states below are met by the executions named with them.
\<close>

definition example_config :: config where
  "example_config = \<lparr>PROC_MAX = 4, PROC_NAME_LEN = 12, PROC_IO_MAX = 1, QUEUE_SIZE = 4,
     SCHEDULER_TIMESLICE = 1, OS_NAME = ''CrimOS'',
     EF_DEFAULT_VALUE = 2, EF_INTR = 512,
     SYSCALL_SYS_GET_TIME = 4, SYSCALL_SYS_GET_NAME = 5, SYSCALL_PROC_SLEEP = 6,
     SYSCALL_PROC_EXIT = 7, SYSCALL_PROC_GET_PID = 8, SYSCALL_PROC_GET_NAME = 9,
     SYSCALL_IO_READ = 1, SYSCALL_IO_WRITE = 2, SYSCALL_IO_FLUSH = 3,
     get_cs = 8, get_ds = 16, get_es = 16, get_fs = 16, get_gs = 16,
     stack_top_addr = (\<lambda>e. 8192 * (1 + word_of_nat e)), kproc_idle_addr = 4096\<rparr>"

definition example_proc ::
  "int \<Rightarrow> state_t \<Rightarrow> proc_type_t \<Rightarrow> string \<Rightarrow> nat \<Rightarrow> queue_id option \<Rightarrow> proc_t" where
  "example_proc p st ty nm e q = \<lparr>pid = p, state = st, ptype = ty,
     name = nm @ replicate (12 - length nm) NUL, start_time = 0, run_time = 0, cpu_time = 0,
     sleep_time = 0, stack = Some e, trapframe = Some e, scheduler_queue = q, io = [None]\<rparr>"

definition free_slot :: proc_t where
  "free_slot = (proc_zero example_config)\<lparr>pid := - 1\<rparr>"

definition example_frame :: "32 word \<Rightarrow> 32 word \<Rightarrow> trapframe_t" where
  "example_frame entry sp = \<lparr>eax = 0, ebx = 0, eip = entry, eflags = 514, cs = 8, ds = 16,
     es = 16, fs = 16, gs = 16, esp = sp\<rparr>"

text \<open>After boot: the idle process sits in slot 0 and its pid is in the run queue.\<close>

definition st_boot :: kernel where
  "st_boot = \<lparr>next_pid = 1, proc_allocator = [1, 2, 3],
     proc_table = [example_proc 0 IDLE PROC_TYPE_KERNEL ''kernel_idle'' 0 (Some RUN_QUEUE),
                   free_slot, free_slot, free_slot],
     proc_stack = [example_frame 4096 8192, trapframe_zero, trapframe_zero, trapframe_zero],
     run_queue = [0], sleep_queue = [], active_proc = None, timer_ticks = 0,
     user_mem = []\<rparr>"

text \<open>After the creation of two user processes A (pid 1) and B (pid 2).\<close>

definition st_ab :: kernel where
  "st_ab = \<lparr>next_pid = 3, proc_allocator = [3],
     proc_table = [example_proc 0 IDLE PROC_TYPE_KERNEL ''kernel_idle'' 0 (Some RUN_QUEUE),
                   example_proc 1 IDLE PROC_TYPE_USER ''A'' 1 (Some RUN_QUEUE),
                   example_proc 2 IDLE PROC_TYPE_USER ''B'' 2 (Some RUN_QUEUE),
                   free_slot],
     proc_stack = [example_frame 4096 8192, example_frame 20480 16384,
                   example_frame 24576 24576, trapframe_zero],
     run_queue = [0, 1, 2], sleep_queue = [], active_proc = None, timer_ticks = 0,
     user_mem = []\<rparr>"

text \<open>The first scheduling decision: the idle process, whose pid stood first in the
  run queue, is running.\<close>

definition st_idle_running :: kernel where
  "st_idle_running = st_ab\<lparr>
     proc_table := [example_proc 0 ACTIVE PROC_TYPE_KERNEL ''kernel_idle'' 0 (Some RUN_QUEUE),
                    example_proc 1 IDLE PROC_TYPE_USER ''A'' 1 (Some RUN_QUEUE),
                    example_proc 2 IDLE PROC_TYPE_USER ''B'' 2 (Some RUN_QUEUE),
                    free_slot],
     run_queue := [1, 2], active_proc := Some 0\<rparr>"

text \<open>A is running: the idle process has had its first timeslice and B waits in the
  run queue.\<close>

definition st_a_running :: kernel where
  "st_a_running = st_ab\<lparr>
     proc_table := [(example_proc 0 IDLE PROC_TYPE_KERNEL ''kernel_idle'' 0 (Some RUN_QUEUE))
                      \<lparr>run_time := 1\<rparr>,
                    example_proc 1 ACTIVE PROC_TYPE_USER ''A'' 1 (Some RUN_QUEUE),
                    example_proc 2 IDLE PROC_TYPE_USER ''B'' 2 (Some RUN_QUEUE),
                    free_slot],
     run_queue := [2], active_proc := Some 1, timer_ticks := 1\<rparr>"

text \<open>A and B have both asked to sleep for one second at tick 1; a hundred ticks
  later the idle process is running, its timeslice is used up and both wake deadlines
  (tick 101) have been reached.\<close>

definition st_sleepers :: kernel where
  "st_sleepers = st_ab\<lparr>
     proc_table := [(example_proc 0 ACTIVE PROC_TYPE_KERNEL ''kernel_idle'' 0 (Some RUN_QUEUE))
                      \<lparr>run_time := 101, cpu_time := 100\<rparr>,
                    (example_proc 1 SLEEPING PROC_TYPE_USER ''A'' 1 None)\<lparr>sleep_time := 101\<rparr>,
                    (example_proc 2 SLEEPING PROC_TYPE_USER ''B'' 2 None)\<lparr>sleep_time := 101\<rparr>,
                    free_slot],
     run_queue := [], sleep_queue := [1, 2], active_proc := Some 0, timer_ticks := 101\<rparr>"

text \<open>What \<^verbatim>\<open>scheduler_run\<close> makes of the state above.\<close>

definition st_a_woken :: kernel where
  "st_a_woken = st_sleepers\<lparr>
     proc_table := [(example_proc 0 IDLE PROC_TYPE_KERNEL ''kernel_idle'' 0 (Some RUN_QUEUE))
                      \<lparr>run_time := 101\<rparr>,
                    (example_proc 1 ACTIVE PROC_TYPE_USER ''A'' 1 (Some RUN_QUEUE))
                      \<lparr>sleep_time := 101\<rparr>,
                    (example_proc 2 SLEEPING PROC_TYPE_USER ''B'' 2 None)\<lparr>sleep_time := 101\<rparr>,
                    free_slot],
     run_queue := [], sleep_queue := [2], active_proc := Some 1\<rparr>"

text \<open>The sleeping A has been destroyed: its slot is free, and its pid is still in
  the sleep queue. The idle process is running.\<close>

definition st_sleeper_destroyed :: kernel where
  "st_sleeper_destroyed = st_sleepers\<lparr>proc_allocator := [3, 1],
     proc_table := [(example_proc 0 ACTIVE PROC_TYPE_KERNEL ''kernel_idle'' 0 (Some RUN_QUEUE))
                      \<lparr>run_time := 101, cpu_time := 100\<rparr>,
                    proc_zero example_config,
                    (example_proc 2 SLEEPING PROC_TYPE_USER ''B'' 2 None)\<lparr>sleep_time := 101\<rparr>,
                    free_slot]\<rparr>"

text \<open>What \<^verbatim>\<open>kproc_destroy\<close> of A makes of the state with A and B just created.\<close>

definition st_a_destroyed :: kernel where
  "st_a_destroyed = st_ab\<lparr>proc_allocator := [3, 1],
     proc_table := [example_proc 0 IDLE PROC_TYPE_KERNEL ''kernel_idle'' 0 (Some RUN_QUEUE),
                    proc_zero example_config,
                    example_proc 2 IDLE PROC_TYPE_USER ''B'' 2 (Some RUN_QUEUE),
                    free_slot],
     run_queue := [2, 0]\<rparr>"

section \<open>The removal loop\<close>

declare remove_loop.simps [simp del]
declare sweep_loop.simps [simp del]

lemma rotate_Suc_Cons: "rotate (Suc n) (x # xs) = rotate n (xs @ [x])"
  by (simp add: rotate1_rotate_swap)

text \<open>On a queue that does not hold \<open>p\<close> the loop only rotates: every entry is taken
  out and put back until the counter reaches the length.\<close>

lemma remove_loop_absent:
  "p \<notin> set q \<Longrightarrow> length q \<le> QUEUE_SIZE c \<Longrightarrow>
   remove_loop c p i q = Inr (rotate (length q - i) q)"
proof (induction c p i q rule: remove_loop.induct)
  case (1 c p i q)
  show ?case
  proof (cases "i < length q")
    case False
    then show ?thesis by (subst remove_loop.simps) simp
  next
    case True
    then obtain v vs where q: "q = v # vs" by (cases q) auto
    from "1.prems" q have vp: "p \<noteq> v" and pvs: "p \<notin> set vs" by auto
    from "1.prems" q have room: "length vs < QUEUE_SIZE c" by simp
    have qo: "queue_out q = Some (v, vs)" by (simp add: q queue_out_def)
    have qi: "queue_in c vs v = Some (vs @ [v])" using room by (simp add: queue_in_def)
    have IH: "remove_loop c p (Suc i) (vs @ [v]) =
        Inr (rotate (length (vs @ [v]) - Suc i) (vs @ [v]))"
      using "1.IH"(2)[OF True qo refl vp qi] pvs vp "1.prems" q by simp
    have "length q - i = Suc (length vs - i)" using True q by simp
    then have "rotate (length q - i) q = rotate (length vs - i) (vs @ [v])"
      by (simp only: q rotate_Suc_Cons)
    with IH True qo qi vp show ?thesis
      by (subst remove_loop.simps) simp
  qed
qed

text \<open>The entries in front of \<open>p\<close> go to the back, one per iteration.\<close>

lemma remove_loop_skip:
  "p \<notin> set xs \<Longrightarrow> length (xs @ p # ys) \<le> QUEUE_SIZE c \<Longrightarrow> i \<le> length ys \<Longrightarrow>
   remove_loop c p i (xs @ p # ys) = remove_loop c p (i + length xs) (p # ys @ xs)"
proof (induction xs arbitrary: i ys)
  case Nil
  then show ?case by simp
next
  case (Cons x xs)
  from Cons.prems have xp: "p \<noteq> x" and pxs: "p \<notin> set xs" by auto
  have lt: "i < length ((x # xs) @ p # ys)" using Cons.prems by simp
  have qo: "queue_out ((x # xs) @ p # ys) = Some (x, xs @ p # ys)"
    by (simp add: queue_out_def)
  have qi: "queue_in c (xs @ p # ys) x = Some (xs @ p # (ys @ [x]))"
    using Cons.prems by (simp add: queue_in_def)
  have "remove_loop c p i ((x # xs) @ p # ys) = remove_loop c p (Suc i) (xs @ p # (ys @ [x]))"
    using lt qo qi xp by (subst remove_loop.simps) simp
  also have "\<dots> = remove_loop c p (Suc i + length xs) (p # (ys @ [x]) @ xs)"
    using Cons.prems pxs by (intro Cons.IH) auto
  finally show ?case by simp
qed

text \<open>
  What the loop leaves of a queue that holds \<open>p\<close> once: when \<open>p\<close> is taken out the
  bound drops by one, so the entries behind \<open>p\<close> are rotated one time too few. The
  result is the rest of the queue in its old order only when \<open>p\<close> was the last entry
  or at most one entry stood behind it.
\<close>

lemma remove_loop_once:
  assumes "p \<notin> set xs" "p \<notin> set ys" "length (xs @ p # ys) \<le> QUEUE_SIZE c"
  shows "remove_loop c p 0 (xs @ p # ys) = Inr (rotate (length ys - 1) (ys @ xs))"
proof -
  have "remove_loop c p 0 (xs @ p # ys) = remove_loop c p (length xs) (p # ys @ xs)"
    using remove_loop_skip[OF assms(1) assms(3), of 0] by simp
  also have "\<dots> = remove_loop c p (Suc (length xs)) (ys @ xs)"
    by (subst remove_loop.simps) (simp add: queue_out_def)
  also have "\<dots> = Inr (rotate (length (ys @ xs) - Suc (length xs)) (ys @ xs))"
    using assms by (intro remove_loop_absent) auto
  finally show ?thesis by simp
qed

lemma remove_loop_last:
  assumes "p \<notin> set xs" "length xs < QUEUE_SIZE c"
  shows "remove_loop c p 0 (xs @ [p]) = Inr xs"
  using remove_loop_once[of p xs "[]" c] assms by simp

lemma remove_loop_distinct:
  assumes "distinct q" "length q \<le> QUEUE_SIZE c"
  shows "\<exists>q'. remove_loop c p 0 q = Inr q' \<and> set q' = set q - {p} \<and> length q' \<le> length q"
proof (cases "p \<in> set q")
  case False
  with assms show ?thesis by (simp add: remove_loop_absent)
next
  case True
  then obtain xs ys where q: "q = xs @ p # ys" by (auto dest: split_list)
  with assms have "p \<notin> set xs" "p \<notin> set ys" by auto
  with assms q show ?thesis by (auto simp: remove_loop_once)
qed

section \<open>Adding, removing, sleeping\<close>

lemma scheduler_add_ok:
  assumes "i < length (proc_table s)" "length (run_queue s) < QUEUE_SIZE c"
  shows "scheduler_add c (Some i) s =
     Inr (s\<lparr>proc_table := (proc_table s)[i := (proc_table s ! i)
               \<lparr>scheduler_queue := Some RUN_QUEUE, state := IDLE, cpu_time := 0\<rparr>],
            run_queue := run_queue s @ [pid (proc_table s ! i)]\<rparr>)"
  using assms by (simp add: scheduler_add_def upd_proc_def queue_in_def Let_def)

lemma scheduler_add_full:
  assumes "QUEUE_SIZE c \<le> length (run_queue s)"
  shows "scheduler_add c (Some i) s = Inl (Panic ''Unable to add the process to the scheduler'')"
  using assms by (simp add: scheduler_add_def upd_proc_def queue_in_def Let_def)

section \<open>Lookup and the sweep of the sleep queue\<close>

lemma pid_to_proc_from_bound:
  "pid_to_proc_from xs k p = Some j \<Longrightarrow> k \<le> j \<and> j < k + length xs"
  by (induction xs arbitrary: k) (fastforce split: if_splits)+

lemma pid_to_proc_from_sound:
  "pid_to_proc_from xs k p = Some j \<Longrightarrow> pid (xs ! (j - k)) = p \<and> state (xs ! (j - k)) \<noteq> NONE"
proof (induction xs arbitrary: k)
  case Nil
  then show ?case by simp
next
  case (Cons x xs)
  show ?case
  proof (cases "pid x = p \<and> state x \<noteq> NONE")
    case True
    with Cons.prems show ?thesis by simp
  next
    case False
    with Cons.prems have r: "pid_to_proc_from xs (Suc k) p = Some j" by auto
    from pid_to_proc_from_bound[OF r] have "Suc k \<le> j" by simp
    then have "j - k = Suc (j - Suc k)" by simp
    with Cons.IH[OF r] show ?thesis by simp
  qed
qed

lemma pid_to_proc_bound: "pid_to_proc s p = Some j \<Longrightarrow> j < length (proc_table s)"
  using pid_to_proc_from_bound[of "proc_table s" 0 p j] by (simp add: pid_to_proc_def)

lemma pid_to_proc_sound:
  "pid_to_proc s p = Some j \<Longrightarrow> pid (proc_table s ! j) = p \<and> state (proc_table s ! j) \<noteq> NONE"
  using pid_to_proc_from_sound[of "proc_table s" 0 p j] by (simp add: pid_to_proc_def)

text \<open>Effects of the scheduler's operations on the states of the table and on the active reference.\<close>

lemma scheduler_add_effect:
  assumes "scheduler_add c (Some i) s = Inr s'"
  shows "proc_table s' = (proc_table s)[i := (proc_table s ! i)
            \<lparr>scheduler_queue := Some RUN_QUEUE, state := IDLE, cpu_time := 0\<rparr>]"
    and "active_proc s' = active_proc s"
    and "sleep_queue s' = sleep_queue s"
    and "run_queue s' = run_queue s @ [pid (proc_table s' ! i)]"
    and "next_pid s' = next_pid s" and "proc_allocator s' = proc_allocator s"
    and "proc_stack s' = proc_stack s" and "timer_ticks s' = timer_ticks s"
  using assms
  by (auto simp: scheduler_add_def upd_proc_def queue_in_def Let_def split: option.splits if_splits)

lemma scheduler_add_active_inv:
  assumes "scheduler_add c proc s = Inr s'" "active_inv s"
  shows "active_inv s'"
proof (cases proc)
  case None
  with assms show ?thesis by (simp add: scheduler_add_def)
next
  case (Some i)
  note eff = scheduler_add_effect(1,2)[OF assms(1)[unfolded Some]]
  have len: "length (proc_table s') = length (proc_table s)" by (simp add: eff(1))
  have st: "state (proc_table s' ! j) = ACTIVE \<Longrightarrow> state (proc_table s ! j) = ACTIVE"
    if "j < length (proc_table s)" for j
    using that by (cases "j = i") (simp_all add: eff(1))
  show ?thesis
    unfolding active_inv_def len eff(2)
    using assms(2) st unfolding active_inv_def by blast
qed

lemma sweep_loop_done: "\<not> i < length (sleep_queue s) \<Longrightarrow> sweep_loop c now i s = Inr s"
  by (subst sweep_loop.simps) simp

lemma sweep_loop_step:
  assumes "i < length (sleep_queue s)" "sleep_queue s = v # q1"
  shows "sweep_loop c now i s =
     (case pid_to_proc (s\<lparr>sleep_queue := q1\<rparr>) v of
        None \<Rightarrow> Inl (Panic ''Invalid process in sleep queue'')
      | Some j \<Rightarrow>
          if now \<ge> sleep_time (proc_table s ! j) then
            (case scheduler_add c (Some j) (s\<lparr>sleep_queue := q1\<rparr>) of
               Inl e \<Rightarrow> Inl e
             | Inr s2 \<Rightarrow> sweep_loop c now (Suc i) s2)
          else
            sweep_loop c now (Suc i)
              (case queue_in c q1 (pid (proc_table s ! j)) of
                 None \<Rightarrow> s\<lparr>sleep_queue := q1\<rparr>
               | Some q2 \<Rightarrow> s\<lparr>sleep_queue := q2\<rparr>))"
  using assms
  by (subst sweep_loop.simps) (simp add: queue_out_def Let_def split: option.splits)

lemma sweep_loop_rule:
  assumes run: "sweep_loop c now i s = Inr s'"
    and init: "P s"
    and wake: "\<And>s v q1 j s2. P s \<Longrightarrow> sleep_queue s = v # q1 \<Longrightarrow>
        pid_to_proc (s\<lparr>sleep_queue := q1\<rparr>) v = Some j \<Longrightarrow>
        scheduler_add c (Some j) (s\<lparr>sleep_queue := q1\<rparr>) = Inr s2 \<Longrightarrow> P s2"
    and keep: "\<And>s v q1 j q2. P s \<Longrightarrow> sleep_queue s = v # q1 \<Longrightarrow>
        pid_to_proc (s\<lparr>sleep_queue := q1\<rparr>) v = Some j \<Longrightarrow>
        q2 = q1 \<or> q2 = q1 @ [pid (proc_table s ! j)] \<Longrightarrow>
        P (s\<lparr>sleep_queue := q2\<rparr>)"
  shows "P s'"
  using run init
proof (induction "length (sleep_queue s) - i" arbitrary: i s rule: less_induct)
  case less
  show ?case
  proof (cases "i < length (sleep_queue s)")
    case False
    with less.prems show ?thesis by (simp add: sweep_loop_done)
  next
    case True
    then obtain v q1 where q: "sleep_queue s = v # q1"
      by (cases "sleep_queue s") auto
    let ?s1 = "s\<lparr>sleep_queue := q1\<rparr>"
    note unfold = sweep_loop_step[OF True q, of c now]
    from less.prems(1) obtain j where j: "pid_to_proc ?s1 v = Some j"
      unfolding unfold by (cases "pid_to_proc ?s1 v") auto
    show ?thesis
    proof (cases "now \<ge> sleep_time (proc_table s ! j)")
      case due: True
      from less.prems(1) obtain s2 where
        add: "scheduler_add c (Some j) ?s1 = Inr s2" and
        rest: "sweep_loop c now (Suc i) s2 = Inr s'"
        unfolding unfold using j due by (cases "scheduler_add c (Some j) ?s1") auto
      have "sleep_queue s2 = q1" using scheduler_add_effect(3)[OF add] by simp
      then have "length (sleep_queue s2) - Suc i < length (sleep_queue s) - i"
        using True q by simp
      moreover have "P s2" using wake[OF less.prems(2) q j add] .
      ultimately show ?thesis using less.hyps rest by blast
    next
      case notdue: False
      let ?s2 = "case queue_in c q1 (pid (proc_table s ! j)) of
                   None \<Rightarrow> ?s1 | Some q2 \<Rightarrow> s\<lparr>sleep_queue := q2\<rparr>"
      from less.prems(1) have rest: "sweep_loop c now (Suc i) ?s2 = Inr s'"
        unfolding unfold using j notdue by simp
      have "length (sleep_queue ?s2) \<le> length (sleep_queue s)"
        using q by (simp add: queue_in_def)
      then have "length (sleep_queue ?s2) - Suc i < length (sleep_queue s) - i"
        using True by simp
      moreover have "P ?s2"
        using keep[OF less.prems(2) q j, of q1] keep[OF less.prems(2) q j, of "q1 @ [pid (proc_table s ! j)]"]
        by (simp add: queue_in_def)
      ultimately show ?thesis using less.hyps rest by blast
    qed
  qed
qed

lemma sweep_loop_active_inv:
  assumes "sweep_loop c now i s = Inr s'" "active_inv s" "active_proc s = None"
  shows "active_inv s' \<and> active_proc s' = None"
proof -
  define P where "P = (\<lambda>s::kernel. active_inv s \<and> active_proc s = None)"
  have init: "P s" using assms by (simp add: P_def)
  have wake: "P s2" if "P s0" "scheduler_add c (Some j) (s0\<lparr>sleep_queue := q1\<rparr>) = Inr s2"
    for s0 q1 j s2
  proof -
    have "active_inv (s0\<lparr>sleep_queue := q1\<rparr>)" using that(1) by (auto simp: P_def active_inv_def)
    from scheduler_add_active_inv[OF that(2) this] scheduler_add_effect(2)[OF that(2)] that(1)
    show ?thesis by (simp add: P_def)
  qed
  have keep: "P (s0\<lparr>sleep_queue := q2\<rparr>)" if "P s0" for s0 q2
    using that by (auto simp: P_def active_inv_def)
  have "P s'"
    by (rule sweep_loop_rule[where P = P, OF assms(1) init]) (auto intro: wake keep)
  then show ?thesis by (simp add: P_def)
qed

section \<open>The active process\<close>

lemma upd_proc_simps [simp]:
  "length (proc_table (upd_proc i f s)) = length (proc_table s)"
  "active_proc (upd_proc i f s) = active_proc s"
  "run_queue (upd_proc i f s) = run_queue s"
  "sleep_queue (upd_proc i f s) = sleep_queue s"
  "proc_allocator (upd_proc i f s) = proc_allocator s"
  "next_pid (upd_proc i f s) = next_pid s"
  "proc_stack (upd_proc i f s) = proc_stack s"
  "timer_ticks (upd_proc i f s) = timer_ticks s"
  "user_mem (upd_proc i f s) = user_mem s"
  by (simp_all add: upd_proc_def)

lemma upd_proc_nth:
  "j < length (proc_table s) \<Longrightarrow>
   proc_table (upd_proc i f s) ! j = (if j = i then f (proc_table s ! i) else proc_table s ! j)"
  by (simp add: upd_proc_def nth_list_update)

lemma no_active_iff:
  assumes "active_inv s" "active_proc s = None" "j < length (proc_table s)"
  shows "state (proc_table s ! j) \<noteq> ACTIVE"
proof
  assume "state (proc_table s ! j) = ACTIVE"
  with assms(1,3) have "active_proc s = Some j" unfolding active_inv_def by blast
  with assms(2) show False by simp
qed

lemma active_inv_upd_proc:
  assumes "active_inv s"
    and "state (f (proc_table s ! i)) = ACTIVE \<Longrightarrow> state (proc_table s ! i) = ACTIVE"
  shows "active_inv (upd_proc i f s)"
proof -
  have a: "\<forall>j < length (proc_table s).
      state (proc_table (upd_proc i f s) ! j) = ACTIVE \<longrightarrow> active_proc s = Some j"
  proof (intro allI impI)
    fix j assume j: "j < length (proc_table s)"
      and act: "state (proc_table (upd_proc i f s) ! j) = ACTIVE"
    have "state (proc_table s ! j) = ACTIVE"
    proof (cases "j = i")
      case True
      with act j have "state (f (proc_table s ! i)) = ACTIVE" by (simp add: upd_proc_nth)
      with assms(2) True show ?thesis by simp
    next
      case False
      with act j show ?thesis by (simp add: upd_proc_nth)
    qed
    with assms(1) j show "active_proc s = Some j" unfolding active_inv_def by blast
  qed
  have b: "\<forall>k. active_proc s = Some k \<longrightarrow> k < length (proc_table s)"
    using assms(1) unfolding active_inv_def by blast
  show ?thesis unfolding active_inv_def upd_proc_simps using a b by blast
qed

lemma active_inv_clear:
  assumes "active_inv s"
    and "\<And>i. active_proc s = Some i \<Longrightarrow> state (proc_table s ! i) \<noteq> ACTIVE"
  shows "active_inv (s\<lparr>active_proc := None\<rparr>)"
proof -
  have "\<forall>j < length (proc_table s). state (proc_table s ! j) \<noteq> ACTIVE"
  proof (intro allI impI notI)
    fix j assume j: "j < length (proc_table s)" and a: "state (proc_table s ! j) = ACTIVE"
    with assms(1) have "active_proc s = Some j" unfolding active_inv_def by blast
    with assms(2) a show False by blast
  qed
  then show ?thesis unfolding active_inv_def by simp
qed

lemma active_inv_frame:
  assumes "active_inv s" "proc_table s' = proc_table s" "active_proc s' = active_proc s"
  shows "active_inv s'"
  unfolding active_inv_def assms(2,3) using assms(1)[unfolded active_inv_def] .

lemma exactly_one_active_mark:
  assumes "active_inv s" "active_proc s = Some i"
  shows "exactly_one_active (upd_proc i (\<lambda>p. p\<lparr>state := ACTIVE\<rparr>) s)"
proof -
  let ?s' = "upd_proc i (\<lambda>p. p\<lparr>state := ACTIVE\<rparr>) s"
  have i: "i < length (proc_table s)" using assms unfolding active_inv_def by blast
  have "\<forall>j < length (proc_table s). (state (proc_table ?s' ! j) = ACTIVE) = (j = i)"
  proof (intro allI impI)
    fix j assume j: "j < length (proc_table s)"
    show "(state (proc_table ?s' ! j) = ACTIVE) = (j = i)"
    proof (cases "j = i")
      case True
      with j show ?thesis by (simp add: upd_proc_nth)
    next
      case False
      have "state (proc_table s ! j) \<noteq> ACTIVE"
      proof
        assume "state (proc_table s ! j) = ACTIVE"
        with assms(1) j have "active_proc s = Some j" unfolding active_inv_def by blast
        with assms(2) False show False by simp
      qed
      with j False show ?thesis by (simp add: upd_proc_nth)
    qed
  qed
  with i assms(2) show ?thesis unfolding exactly_one_active_def upd_proc_simps by blast
qed

lemma exactly_one_active_inv: "exactly_one_active s \<Longrightarrow> active_inv s"
  unfolding exactly_one_active_def active_inv_def by force

lemma run_unschedule_active_inv:
  assumes "run_unschedule c s = Inr s1" "active_inv s"
  shows "active_inv s1"
proof (cases "active_proc s")
  case None
  with assms show ?thesis by (simp add: run_unschedule_def)
next
  case (Some i)
  show ?thesis
  proof (cases "cpu_time (proc_table s ! i) \<ge> SCHEDULER_TIMESLICE c")
    case False
    with Some assms show ?thesis by (simp add: run_unschedule_def)
  next
    case True
    let ?s1 = "upd_proc i (\<lambda>p. p\<lparr>cpu_time := 0\<rparr>) s"
    have i: "i < length (proc_table s)" using assms(2) Some unfolding active_inv_def by simp
    have inv1: "active_inv ?s1" using assms(2) by (rule active_inv_upd_proc) simp
    from assms(1) Some True obtain s2 where
      s2: "(if pid (proc_table ?s1 ! i) \<noteq> 0 then scheduler_add c (Some i) ?s1
            else Inr (upd_proc i (\<lambda>p. p\<lparr>state := IDLE\<rparr>) ?s1)) = Inr s2"
      and s1: "s1 = s2\<lparr>active_proc := None\<rparr>"
      by (auto simp: run_unschedule_def Let_def split: sum.splits)
    have "active_inv s2 \<and> active_proc s2 = Some i \<and> state (proc_table s2 ! i) \<noteq> ACTIVE"
    proof (cases "pid (proc_table ?s1 ! i) \<noteq> 0")
      case True
      with s2 have add: "scheduler_add c (Some i) ?s1 = Inr s2" by simp
      from scheduler_add_active_inv[OF add inv1] scheduler_add_effect(1,2)[OF add] Some i
      show ?thesis by simp
    next
      case False
      with s2 have "s2 = upd_proc i (\<lambda>p. p\<lparr>state := IDLE\<rparr>) ?s1" by simp
      moreover have "active_inv (upd_proc i (\<lambda>p. p\<lparr>state := IDLE\<rparr>) ?s1)"
        using inv1 by (rule active_inv_upd_proc) simp
      ultimately show ?thesis using Some i by (simp add: upd_proc_nth)
    qed
    then show ?thesis unfolding s1 by (intro active_inv_clear) auto
  qed
qed

lemma run_select_active_inv:
  assumes "run_select c s = Inr s2" "active_inv s"
  shows "active_inv s2 \<and> active_proc s2 \<noteq> None"
proof (cases "active_proc s")
  case (Some i)
  with assms show ?thesis by (simp add: run_select_def)
next
  case None
  from assms(1) None obtain s1 where
    sw: "(if \<not> queue_is_empty (sleep_queue s)
          then sweep_loop c (timer_get_ticks s) 0 s else Inr s) = Inr s1"
    by (auto simp: run_select_def split: sum.splits)
  have inv1: "active_inv s1 \<and> active_proc s1 = None"
  proof (cases "queue_is_empty (sleep_queue s)")
    case True
    with sw assms(2) None show ?thesis by simp
  next
    case False
    with sw have "sweep_loop c (timer_get_ticks s) 0 s = Inr s1" by simp
    from sweep_loop_active_inv[OF this assms(2) None] show ?thesis .
  qed
  define pq where "pq = (case queue_out (run_queue s1) of
                           None \<Rightarrow> (0, s1)
                         | Some (v, q) \<Rightarrow> (v, s1\<lparr>run_queue := q\<rparr>))"
  have pq_inv: "active_inv (snd pq) \<and> active_proc (snd pq) = None"
    using inv1 unfolding pq_def
    by (auto split: option.splits intro: active_inv_frame)
  from assms(1) None sw obtain j where
    j: "pid_to_proc (snd pq) (fst pq) = Some j"
    and s2: "s2 = (snd pq)\<lparr>active_proc := Some j\<rparr>"
    unfolding run_select_def pq_def
    by (auto simp: Let_def split: option.splits prod.splits)
  have jl: "j < length (proc_table (snd pq))" using pid_to_proc_bound[OF j] .
  have "state (proc_table (snd pq) ! k) \<noteq> ACTIVE" if "k < length (proc_table (snd pq))" for k
  proof -
    from pq_inv have a: "active_inv (snd pq)" and b: "active_proc (snd pq) = None" by simp_all
    show ?thesis by (rule no_active_iff[OF a b that])
  qed
  with jl show ?thesis unfolding s2 active_inv_def by simp
qed

lemma scheduler_run_exactly_one:
  assumes "scheduler_run c s = Inr s'" "active_inv s"
  shows "exactly_one_active s'"
proof -
  define s0 where "s0 = (case active_proc s of
                  None \<Rightarrow> s
                | Some i \<Rightarrow>
                    if state (proc_table s ! i) \<noteq> ACTIVE then s\<lparr>active_proc := None\<rparr> else s)"
  have inv0: "active_inv s0"
  proof (cases "active_proc s")
    case None
    with assms(2) show ?thesis by (simp add: s0_def)
  next
    case (Some i)
    show ?thesis
    proof (cases "state (proc_table s ! i) \<noteq> ACTIVE")
      case True
      with Some have "s0 = s\<lparr>active_proc := None\<rparr>" by (simp add: s0_def)
      moreover have "active_inv (s\<lparr>active_proc := None\<rparr>)"
        using assms(2) Some True by (intro active_inv_clear) auto
      ultimately show ?thesis by simp
    next
      case False
      with Some assms(2) show ?thesis by (simp add: s0_def)
    qed
  qed
  from assms(1) obtain s1 s2 i where
    u: "run_unschedule c s0 = Inr s1" and sel: "run_select c s1 = Inr s2"
    and a: "active_proc s2 = Some i"
    and s': "s' = upd_proc i (\<lambda>p. p\<lparr>state := ACTIVE\<rparr>) s2"
    unfolding scheduler_run_def s0_def[symmetric]
    by (auto simp: Let_def split: sum.splits option.splits)
  from run_select_active_inv[OF sel run_unschedule_active_inv[OF u inv0]]
  have "active_inv s2" by simp
  from exactly_one_active_mark[OF this a] show ?thesis unfolding s' .
qed

lemma active_inv_fields [simp]:
  "active_inv (s\<lparr>proc_allocator := a\<rparr>) = active_inv s"
  "active_inv (s\<lparr>next_pid := n\<rparr>) = active_inv s"
  "active_inv (s\<lparr>proc_stack := st\<rparr>) = active_inv s"
  "active_inv (s\<lparr>run_queue := q\<rparr>) = active_inv s"
  "active_inv (s\<lparr>sleep_queue := q\<rparr>) = active_inv s"
  "active_inv (s\<lparr>timer_ticks := t\<rparr>) = active_inv s"
  "active_inv (s\<lparr>user_mem := m\<rparr>) = active_inv s"
  by (simp_all add: active_inv_def)

lemma set_queue_simps [simp]:
  "proc_table (set_queue qid q s) = proc_table s"
  "active_proc (set_queue qid q s) = active_proc s"
  "next_pid (set_queue qid q s) = next_pid s"
  "proc_allocator (set_queue qid q s) = proc_allocator s"
  "proc_stack (set_queue qid q s) = proc_stack s"
  "timer_ticks (set_queue qid q s) = timer_ticks s"
  "user_mem (set_queue qid q s) = user_mem s"
  by (simp_all add: set_queue_def split: queue_id.splits)

lemma scheduler_remove_effect:
  assumes "scheduler_remove c (Some i) s = Inr s'"
  shows "length (proc_table s') = length (proc_table s)"
    and "j < length (proc_table s) \<Longrightarrow> state (proc_table s' ! j) = state (proc_table s ! j)"
    and "j < length (proc_table s) \<Longrightarrow> pid (proc_table s' ! j) = pid (proc_table s ! j)"
    and "active_proc s' = (if active_proc s = Some i then None else active_proc s)"
    and "next_pid s' = next_pid s" and "proc_allocator s' = proc_allocator s"
    and "proc_stack s' = proc_stack s" and "timer_ticks s' = timer_ticks s"
    and "user_mem s' = user_mem s"
proof -
  obtain s1 where s1: "s1 = s \<or> (\<exists>qid q. s1 = upd_proc i (\<lambda>p. p\<lparr>scheduler_queue := None\<rparr>)
                                 (set_queue qid q s))"
    and s': "s' = (if active_proc s1 = Some i then s1\<lparr>active_proc := None\<rparr> else s1)"
    using assms
    by (auto simp: scheduler_remove_def split: option.splits sum.splits)
  from s1 have a: "length (proc_table s1) = length (proc_table s)"
    and b: "active_proc s1 = active_proc s"
    and c: "next_pid s1 = next_pid s" "proc_allocator s1 = proc_allocator s"
       "proc_stack s1 = proc_stack s" "timer_ticks s1 = timer_ticks s" "user_mem s1 = user_mem s"
    by auto
  from s1 have d: "state (proc_table s1 ! j) = state (proc_table s ! j)"
      and e: "pid (proc_table s1 ! j) = pid (proc_table s ! j)"
    if "j < length (proc_table s)" for j
    using that by (auto simp: upd_proc_nth)
  show "length (proc_table s') = length (proc_table s)" using a s' by simp
  show "j < length (proc_table s) \<Longrightarrow> state (proc_table s' ! j) = state (proc_table s ! j)"
    using d s' by simp
  show "j < length (proc_table s) \<Longrightarrow> pid (proc_table s' ! j) = pid (proc_table s ! j)"
    using e s' by simp
  show "active_proc s' = (if active_proc s = Some i then None else active_proc s)"
    using b s' by simp
  show "next_pid s' = next_pid s" "proc_allocator s' = proc_allocator s"
    "proc_stack s' = proc_stack s" "timer_ticks s' = timer_ticks s" "user_mem s' = user_mem s"
    using c s' by simp_all
qed

text \<open>Unregistering a process and then overwriting its slot with a state other than
  ACTIVE keeps the invariant, also when the process was the active one.\<close>

lemma remove_then_overwrite_active_inv:
  assumes inv: "active_inv s"
    and rm: "scheduler_remove c (Some i) s = Inr s1"
    and f: "state (f (proc_table s1 ! i)) \<noteq> ACTIVE"
    and i: "i < length (proc_table s)"
  shows "active_inv (upd_proc i f s1)"
proof -
  note eff = scheduler_remove_effect[OF rm]
  have a: "\<forall>j < length (proc_table s1).
      state (proc_table (upd_proc i f s1) ! j) = ACTIVE \<longrightarrow> active_proc s1 = Some j"
  proof (intro allI impI)
    fix j assume j: "j < length (proc_table s1)"
      and act: "state (proc_table (upd_proc i f s1) ! j) = ACTIVE"
    from j have j': "j < length (proc_table s)" by (simp add: eff(1))
    have ji: "j \<noteq> i" using act f j by (auto simp: upd_proc_nth)
    with act j have "state (proc_table s1 ! j) = ACTIVE" by (simp add: upd_proc_nth)
    with j' have "state (proc_table s ! j) = ACTIVE" by (simp add: eff(2))
    with inv j' have "active_proc s = Some j" unfolding active_inv_def by blast
    with ji show "active_proc s1 = Some j" by (simp add: eff(4))
  qed
  have b: "\<forall>k. active_proc s1 = Some k \<longrightarrow> k < length (proc_table s1)"
  proof (intro allI impI)
    fix k assume "active_proc s1 = Some k"
    then have "active_proc s = Some k" by (simp add: eff(4) split: if_splits)
    with inv show "k < length (proc_table s1)" unfolding active_inv_def eff(1) by blast
  qed
  show ?thesis unfolding active_inv_def upd_proc_simps using a b by blast
qed

lemma kproc_destroy_active_inv:
  assumes "kproc_destroy c proc s = Inr (r, s')" "active_inv s"
    and "\<And>i. proc = Some i \<Longrightarrow> i < length (proc_table s)"
  shows "active_inv s'"
proof (cases proc)
  case None
  with assms show ?thesis by (simp add: kproc_destroy_def)
next
  case (Some i)
  show ?thesis
  proof (cases "state (proc_table s ! i) = NONE \<or> pid (proc_table s ! i) = 0")
    case True
    with Some assms show ?thesis by (simp add: kproc_destroy_def)
  next
    case False
    with assms(1) Some obtain s1 where rm: "scheduler_remove c (Some i) s = Inr s1"
      and s': "\<exists>st al. s' = (upd_proc i (\<lambda>p. proc_zero c) s1)\<lparr>proc_stack := st, proc_allocator := al\<rparr>
               \<or> s' = (upd_proc i (\<lambda>p. proc_zero c) s1)\<lparr>proc_stack := st\<rparr>"
      by (auto simp: kproc_destroy_def Let_def split: sum.splits option.splits)
    have "active_inv (upd_proc i (\<lambda>p. proc_zero c) s1)"
      using assms(2) rm _ assms(3)[OF Some]
      by (rule remove_then_overwrite_active_inv) (simp add: proc_zero_def)
    with s' show ?thesis by auto
  qed
qed

lemma kproc_create_active_inv:
  assumes "kproc_create c ptr nm ty s = Inr (r, s')" "active_inv s"
  shows "active_inv s'"
proof (cases "queue_out (proc_allocator s)")
  case None
  with assms show ?thesis by (simp add: kproc_create_def)
next
  case (Some a)
  obtain entry qa where a: "a = (entry, qa)" by (cases a)
  show ?thesis
  proof (cases "entry = - 1")
    case True
    with assms(1) Some a have "s' = s\<lparr>proc_allocator := qa\<rparr>"
      by (simp add: kproc_create_def)
    with assms(2) show ?thesis by simp
  next
    case False
    define e where "e = nat entry"
    define s2 where "s2 = upd_proc e (\<lambda>p. p\<lparr>stack := Some e, trapframe := Some e\<rparr>)
                            (s\<lparr>proc_allocator := qa\<rparr>)"
    define s3 where "s3 = (upd_proc e (\<lambda>p. p\<lparr>pid := next_pid s2\<rparr>) s2)\<lparr>next_pid := int32 (next_pid s2 + 1)\<rparr>"
    define s4 where "s4 = upd_proc e (\<lambda>p. p\<lparr>state := IDLE, ptype := ty,
                        start_time := timer_get_ticks s3, run_time := 0, cpu_time := 0\<rparr>) s3"
    define s5 where "s5 = upd_proc e (\<lambda>p. p\<lparr>name :=
                        (strncpy (name p) nm (PROC_NAME_LEN c))
                          [PROC_NAME_LEN c - 1 := NUL]\<rparr>) s4"
    define s6 where "s6 = s5\<lparr>proc_stack := (proc_stack s5)[e := (proc_stack s5 ! e)
                        \<lparr>eip := ptr, eflags := EF_DEFAULT_VALUE c OR EF_INTR c,
                         cs := get_cs c, ds := get_ds c, es := get_es c, fs := get_fs c,
                         gs := get_gs c, esp := stack_top_addr c e\<rparr>]\<rparr>"
    have "active_inv (s\<lparr>proc_allocator := qa\<rparr>)" using assms(2) by simp
    then have "active_inv s2" unfolding s2_def by (rule active_inv_upd_proc) simp
    then have "active_inv (upd_proc e (\<lambda>p. p\<lparr>pid := next_pid s2\<rparr>) s2)"
      by (rule active_inv_upd_proc) simp
    then have "active_inv s3" unfolding s3_def by simp
    then have "active_inv s4" unfolding s4_def by (rule active_inv_upd_proc) simp
    then have "active_inv s5" unfolding s5_def by (rule active_inv_upd_proc) simp
    then have inv6: "active_inv s6" unfolding s6_def by simp
    from assms(1) Some a False have "scheduler_add c (Some e) s6 = Inr s'"
      unfolding kproc_create_def s6_def s5_def s4_def s3_def s2_def e_def
      by (simp add: Let_def split: sum.splits)
    from scheduler_add_active_inv[OF this inv6] show ?thesis .
  qed
qed

lemma timer_tick_active_inv:
  assumes "active_inv s"
  shows "active_inv (timer_tick s)"
proof (cases "active_proc s")
  case None
  with assms show ?thesis by (simp add: timer_tick_def scheduler_timer_def)
next
  case (Some i)
  have "active_inv (s\<lparr>timer_ticks := int32 (timer_ticks s + 1)\<rparr>)" using assms by simp
  then have "active_inv (upd_proc i (\<lambda>p. p\<lparr>run_time := int32 (run_time p + 1),
                                       cpu_time := int32 (cpu_time p + 1)\<rparr>)
      (s\<lparr>timer_ticks := int32 (timer_ticks s + 1)\<rparr>))"
    by (rule active_inv_upd_proc) simp
  with Some show ?thesis by (simp add: timer_tick_def scheduler_timer_def)
qed

lemma scheduler_sleep_active_inv:
  assumes "scheduler_sleep c (Some i) t s = Inr s'" "active_inv s" "i < length (proc_table s)"
  shows "active_inv s'"
proof -
  define s2 where "s2 = upd_proc i (\<lambda>p. p\<lparr>state := SLEEPING\<rparr>)
      (upd_proc i (\<lambda>p. p\<lparr>sleep_time := int32 (timer_get_ticks s + t)\<rparr>) s)"
  from assms(1) obtain s3 where rm: "scheduler_remove c (Some i) s2 = Inr s3"
    and s': "s' = s3 \<or> (\<exists>q. s' = s3\<lparr>sleep_queue := q\<rparr>)"
    unfolding scheduler_sleep_def s2_def
    by (auto simp: Let_def split: sum.splits option.splits)
  have "active_inv (upd_proc i (\<lambda>p. p\<lparr>sleep_time := int32 (timer_get_ticks s + t)\<rparr>) s)"
    using assms(2) by (rule active_inv_upd_proc) simp
  then have inv2: "active_inv s2" unfolding s2_def by (rule active_inv_upd_proc) simp
  have i2: "i < length (proc_table s2)" using assms(3) by (simp add: s2_def)
  have "active_inv (upd_proc i (\<lambda>p. p) s3)"
  proof (rule remove_then_overwrite_active_inv[OF inv2 rm _ i2])
    have "state (proc_table s3 ! i) = state (proc_table s2 ! i)"
      using scheduler_remove_effect(2)[OF rm i2] .
    also have "\<dots> = SLEEPING" using assms(3) by (simp add: s2_def upd_proc_nth)
    finally show "state (proc_table s3 ! i) \<noteq> ACTIVE" by simp
  qed
  moreover have "upd_proc i (\<lambda>p. p) s3 = s3" by (simp add: upd_proc_def)
  ultimately have "active_inv s3" by simp
  with s' show ?thesis by auto
qed

lemma ksyscall_proc_sleep_active_inv:
  assumes "ksyscall_proc_sleep c secs s = Inr (r, s')" "active_inv s"
  shows "active_inv s'"
proof (cases "active_proc s")
  case None
  with assms show ?thesis by (simp add: ksyscall_proc_sleep_def)
next
  case (Some i)
  with assms(2) have i: "i < length (proc_table s)" unfolding active_inv_def by blast
  from assms(1) Some have "scheduler_sleep c (Some i) (int32 (secs * 100)) s = Inr s'"
    by (auto simp: ksyscall_proc_sleep_def split: sum.splits)
  from scheduler_sleep_active_inv[OF this assms(2) i] show ?thesis .
qed

lemma ksyscall_proc_exit_active_inv:
  assumes "ksyscall_proc_exit c s = Inr (r, s')" "active_inv s"
  shows "active_inv s'"
proof (cases "active_proc s")
  case None
  with assms show ?thesis by (simp add: ksyscall_proc_exit_def)
next
  case (Some i)
  from assms(1) Some have run: "scheduler_run c (upd_proc i (\<lambda>p. p\<lparr>state := NONE\<rparr>) s) = Inr s'"
    by (auto simp: ksyscall_proc_exit_def split: sum.splits)
  have "active_inv (upd_proc i (\<lambda>p. p\<lparr>state := NONE\<rparr>) s)"
    using assms(2) by (rule active_inv_upd_proc) simp
  from exactly_one_active_inv[OF scheduler_run_exactly_one[OF run this]] show ?thesis .
qed

lemma write_eax_frame:
  assumes "write_eax rc s = Inr s'"
  shows "proc_table s' = proc_table s" "active_proc s' = active_proc s"
    "next_pid s' = next_pid s" "proc_allocator s' = proc_allocator s"
    "run_queue s' = run_queue s" "sleep_queue s' = sleep_queue s"
  using assms by (auto simp: write_eax_def split: option.splits)

lemma write_eax_active_inv:
  assumes "write_eax rc s = Inr s'" "active_inv s"
  shows "active_inv s'"
  using active_inv_frame[OF assms(2) write_eax_frame(1,2)[OF assms(1)]] .

lemma load_regs_frame:
  "proc_table (load_regs a b s) = proc_table s" "active_proc (load_regs a b s) = active_proc s"
  "next_pid (load_regs a b s) = next_pid s" "proc_allocator (load_regs a b s) = proc_allocator s"
  "run_queue (load_regs a b s) = run_queue s" "sleep_queue (load_regs a b s) = sleep_queue s"
  by (simp_all add: load_regs_def split: option.splits)

lemma ksyscall_irq_handler_active_inv:
  assumes "ksyscall_irq_handler c s = Inr s'" "active_inv s"
  shows "active_inv s'"
proof -
  from assms(1) obtain i k where i: "active_proc s = Some i"
    and k: "trapframe (proc_table s ! i) = Some k"
    by (auto simp: ksyscall_irq_handler_def split: option.splits)
  define tf where "tf = proc_stack s ! k"
  consider
      (time) "write_eax (ksyscall_sys_get_time s) s = Inr s'"
    | (name) "write_eax (fst (ksyscall_sys_get_name c (ebx tf) s))
                (snd (ksyscall_sys_get_name c (ebx tf) s)) = Inr s'"
    | (exit) rc s1 where "ksyscall_proc_exit c s = Inr (rc, s1)" "write_eax rc s1 = Inr s'"
    | (pid) "write_eax (ksyscall_proc_get_pid s) s = Inr s'"
    | (pname) "write_eax (fst (ksyscall_proc_get_name c (ebx tf) s))
                (snd (ksyscall_proc_get_name c (ebx tf) s)) = Inr s'"
    using assms(1) i k unfolding ksyscall_irq_handler_def tf_def
    by (auto simp: Let_def split: if_splits sum.splits prod.splits)
  then show ?thesis
  proof cases
    case time
    from write_eax_active_inv[OF this assms(2)] show ?thesis .
  next
    case name
    have "active_inv (snd (ksyscall_sys_get_name c (ebx tf) s))"
      using assms(2) by (simp add: ksyscall_sys_get_name_def write_mem_def)
    from write_eax_active_inv[OF name this] show ?thesis .
  next
    case exit
    from write_eax_active_inv[OF exit(2) ksyscall_proc_exit_active_inv[OF exit(1) assms(2)]]
    show ?thesis .
  next
    case pid
    from write_eax_active_inv[OF this assms(2)] show ?thesis .
  next
    case pname
    have "active_inv (snd (ksyscall_proc_get_name c (ebx tf) s))"
      using assms(2) by (simp add: ksyscall_proc_get_name_def write_mem_def split: option.splits)
    from write_eax_active_inv[OF pname this] show ?thesis .
  qed
qed

lemma kstep_active_inv:
  assumes "kstep c call s = Inr s'" "active_inv s"
  shows "active_inv s'"
proof (cases call)
  case (K_create ptr nm ty)
  with assms(1) obtain r where "kproc_create c ptr nm ty s = Inr (r, s')"
    by (auto simp: kstep_def split: sum.splits)
  from kproc_create_active_inv[OF this assms(2)] show ?thesis .
next
  case (K_destroy p)
  with assms(1) obtain r where "kproc_destroy c (pid_to_proc s p) s = Inr (r, s')"
    by (auto simp: kstep_def split: sum.splits)
  from kproc_destroy_active_inv[OF this assms(2)] pid_to_proc_bound show ?thesis by blast
next
  case K_run
  with assms(1) have "scheduler_run c s = Inr s'" by (simp add: kstep_def)
  from exactly_one_active_inv[OF scheduler_run_exactly_one[OF this assms(2)]] show ?thesis .
next
  case K_tick
  with assms show ?thesis by (auto simp: kstep_def timer_tick_active_inv)
next
  case (K_syscall a b)
  with assms(1) have h: "ksyscall_irq_handler c (load_regs a b s) = Inr s'"
    by (simp add: kstep_def)
  have "active_inv (load_regs a b s)"
    using active_inv_frame[OF assms(2) load_regs_frame(1,2)] .
  from ksyscall_irq_handler_active_inv[OF h this] show ?thesis .
next
  case (K_sleep secs)
  with assms(1) obtain r where "ksyscall_proc_sleep c secs s = Inr (r, s')"
    by (auto simp: kstep_def split: sum.splits)
  from ksyscall_proc_sleep_active_inv[OF this assms(2)] show ?thesis .
qed

lemma boot_state_active_inv: "active_inv (boot_state c um)"
  by (simp add: active_inv_def boot_state_def proc_zero_def)

lemma scheduler_init_active_inv: "active_inv s \<Longrightarrow> active_inv (scheduler_init s)"
  by (simp add: scheduler_init_def)

lemma active_inv_states:
  assumes "active_inv s" "length (proc_table s') = length (proc_table s)"
    and "\<And>j. j < length (proc_table s) \<Longrightarrow>
           state (proc_table s' ! j) = state (proc_table s ! j)"
    and "active_proc s' = active_proc s"
  shows "active_inv s'"
proof -
  have "\<forall>j < length (proc_table s).
      state (proc_table s' ! j) = ACTIVE \<longrightarrow> active_proc s = Some j"
  proof (intro allI impI)
    fix j assume j: "j < length (proc_table s)" and "state (proc_table s' ! j) = ACTIVE"
    then have "state (proc_table s ! j) = ACTIVE" by (simp add: assms(3))
    with assms(1) j show "active_proc s = Some j" unfolding active_inv_def by blast
  qed
  moreover have "\<forall>k. active_proc s = Some k \<longrightarrow> k < length (proc_table s)"
    using assms(1) unfolding active_inv_def by blast
  ultimately show ?thesis unfolding active_inv_def assms(2,4) by blast
qed

lemma kproc_init_active_inv:
  assumes "kproc_init c s0 = Inr s" "active_inv s0"
  shows "active_inv s"
proof -
  define s2 where "s2 = s0\<lparr>proc_table := map (\<lambda>p. p\<lparr>pid := - 1\<rparr>) (proc_table s0),
     proc_allocator := fold (\<lambda>i q. case queue_in c q (int i) of None \<Rightarrow> q | Some q' \<Rightarrow> q')
                   [0..<PROC_MAX c] queue_init\<rparr>"
  from assms(2) have inv2: "active_inv s2"
    by (rule active_inv_states) (simp_all add: s2_def)
  from assms(1) obtain r where
    "kproc_create c (kproc_idle_addr c) ''kernel_idle'' PROC_TYPE_KERNEL s2 = Inr (r, s)"
    unfolding kproc_init_def s2_def
    by (auto simp: Let_def split: sum.splits if_splits)
  from kproc_create_active_inv[OF this inv2] show ?thesis .
qed

lemma reachable_by_active_inv: "reachable_by c n s \<Longrightarrow> active_inv s"
proof (induction rule: reachable_by.induct)
  case (boot um s)
  then have "kproc_init c (scheduler_init (boot_state c um)) = Inr s"
    by (simp add: kernel_boot_def)
  from kproc_init_active_inv[OF this scheduler_init_active_inv[OF boot_state_active_inv]]
  show ?case .
next
  case (boot_late um s)
  from scheduler_init_active_inv[OF kproc_init_active_inv[OF boot_late boot_state_active_inv]]
  show ?case .
next
  case (step n s call s')
  from kstep_active_inv[OF step(3) step(4)] show ?case .
qed

lemma reachable_active_inv: "reachable c s \<Longrightarrow> active_inv s"
  unfolding reachable_def using reachable_by_active_inv by blast

section \<open>Pids and the allocator\<close>

lemma same_alloc_refl [simp]: "same_alloc s s"
  by (simp add: same_alloc_def)

lemma same_alloc_trans: "same_alloc s s1 \<Longrightarrow> same_alloc s1 s2 \<Longrightarrow> same_alloc s s2"
  by (simp add: same_alloc_def)

lemma same_alloc_alloc_inv: "same_alloc s s' \<Longrightarrow> alloc_inv s \<Longrightarrow> alloc_inv s'"
  by (simp add: same_alloc_def alloc_inv_def)

lemma same_alloc_upd_proc [simp]: "same_alloc s (upd_proc i f s)"
  by (simp add: same_alloc_def)

lemma same_alloc_fields [simp]:
  "same_alloc s (s\<lparr>run_queue := q\<rparr>)"
  "same_alloc s (s\<lparr>sleep_queue := q\<rparr>)"
  "same_alloc s (s\<lparr>active_proc := a\<rparr>)"
  "same_alloc s (s\<lparr>timer_ticks := t\<rparr>)"
  "same_alloc s (s\<lparr>proc_stack := st\<rparr>)"
  "same_alloc s (s\<lparr>user_mem := m\<rparr>)"
  by (simp_all add: same_alloc_def)

lemma scheduler_add_same_alloc:
  assumes "scheduler_add c proc s = Inr s'"
  shows "same_alloc s s'"
proof (cases proc)
  case None
  with assms show ?thesis by (simp add: scheduler_add_def)
next
  case (Some i)
  from scheduler_add_effect(1,5,6)[OF assms[unfolded Some]]
  show ?thesis by (simp add: same_alloc_def)
qed

lemma scheduler_remove_same_alloc:
  assumes "scheduler_remove c (Some i) s = Inr s'"
  shows "same_alloc s s'"
  using scheduler_remove_effect(1,5,6)[OF assms] by (simp add: same_alloc_def)

lemma scheduler_sleep_same_alloc:
  assumes "scheduler_sleep c (Some i) t s = Inr s'"
  shows "same_alloc s s'"
proof -
  define s2 where "s2 = upd_proc i (\<lambda>p. p\<lparr>state := SLEEPING\<rparr>)
      (upd_proc i (\<lambda>p. p\<lparr>sleep_time := int32 (timer_get_ticks s + t)\<rparr>) s)"
  from assms obtain s3 where rm: "scheduler_remove c (Some i) s2 = Inr s3"
    and s': "s' = s3 \<or> (\<exists>q. s' = s3\<lparr>sleep_queue := q\<rparr>)"
    unfolding scheduler_sleep_def s2_def
    by (auto simp: Let_def split: sum.splits option.splits)
  have "same_alloc s s2" by (simp add: s2_def same_alloc_def)
  from same_alloc_trans[OF this scheduler_remove_same_alloc[OF rm]] have "same_alloc s s3" .
  with s' show ?thesis by (auto simp: same_alloc_def)
qed

lemma sweep_loop_same_alloc:
  assumes "sweep_loop c now i s = Inr s'"
  shows "same_alloc s s'"
proof -
  define P where "P = (\<lambda>x::kernel. same_alloc s x)"
  have init: "P s" by (simp add: P_def)
  have wake: "P s2" if "P s0" "scheduler_add c (Some j) (s0\<lparr>sleep_queue := q1\<rparr>) = Inr s2"
    for s0 q1 j s2
    using that(1) scheduler_add_same_alloc[OF that(2)] by (simp add: P_def same_alloc_def)
  have keep: "P (s0\<lparr>sleep_queue := q2\<rparr>)" if "P s0" for s0 q2
    using that by (simp add: P_def same_alloc_def)
  have "P s'"
    by (rule sweep_loop_rule[where P = P, OF assms init]) (auto intro: wake keep)
  then show ?thesis by (simp add: P_def)
qed

lemma run_unschedule_same_alloc:
  assumes "run_unschedule c s = Inr s'"
  shows "same_alloc s s'"
proof (cases "active_proc s")
  case None
  with assms show ?thesis by (simp add: run_unschedule_def)
next
  case (Some i)
  show ?thesis
  proof (cases "cpu_time (proc_table s ! i) \<ge> SCHEDULER_TIMESLICE c")
    case False
    with Some assms show ?thesis by (simp add: run_unschedule_def)
  next
    case True
    let ?s1 = "upd_proc i (\<lambda>p. p\<lparr>cpu_time := 0\<rparr>) s"
    from assms Some True obtain s2 where
      s2: "scheduler_add c (Some i) ?s1 = Inr s2 \<or> s2 = upd_proc i (\<lambda>p. p\<lparr>state := IDLE\<rparr>) ?s1"
      and s': "s' = s2\<lparr>active_proc := None\<rparr>"
      by (auto simp: run_unschedule_def Let_def split: sum.splits if_splits)
    from s2 have "same_alloc ?s1 s2"
      by (auto intro: scheduler_add_same_alloc)
    then show ?thesis unfolding s' by (simp add: same_alloc_def)
  qed
qed

lemma run_select_same_alloc:
  assumes "run_select c s = Inr s'"
  shows "same_alloc s s'"
proof (cases "active_proc s")
  case (Some i)
  with assms show ?thesis by (simp add: run_select_def)
next
  case None
  from assms None obtain s1 where
    sw: "(if \<not> queue_is_empty (sleep_queue s)
          then sweep_loop c (timer_get_ticks s) 0 s else Inr s) = Inr s1"
    and s': "\<exists>q a. s' = s1\<lparr>run_queue := q, active_proc := a\<rparr> \<or> s' = s1\<lparr>active_proc := a\<rparr>"
    by (auto simp: run_select_def Let_def split: sum.splits option.splits prod.splits)
  from sw have "same_alloc s s1"
    by (auto split: if_splits intro: sweep_loop_same_alloc)
  with s' show ?thesis by (auto simp: same_alloc_def)
qed

lemma scheduler_run_same_alloc:
  assumes "scheduler_run c s = Inr s'"
  shows "same_alloc s s'"
proof -
  define s0 where "s0 = (case active_proc s of
                  None \<Rightarrow> s
                | Some i \<Rightarrow>
                    if state (proc_table s ! i) \<noteq> ACTIVE then s\<lparr>active_proc := None\<rparr> else s)"
  have 0: "same_alloc s s0" by (simp add: s0_def same_alloc_def split: option.splits)
  from assms obtain s1 s2 i where
    u: "run_unschedule c s0 = Inr s1" and sel: "run_select c s1 = Inr s2"
    and s': "s' = upd_proc i (\<lambda>p. p\<lparr>state := ACTIVE\<rparr>) s2"
    unfolding scheduler_run_def s0_def[symmetric]
    by (auto simp: Let_def split: sum.splits option.splits)
  from 0 run_unschedule_same_alloc[OF u] run_select_same_alloc[OF sel]
  show ?thesis unfolding s' by (simp add: same_alloc_def)
qed

lemma write_eax_same_alloc: "write_eax rc s = Inr s' \<Longrightarrow> same_alloc s s'"
  using write_eax_frame(1,3,4)[of rc s s'] by (simp add: same_alloc_def)

lemma ksyscall_proc_exit_same_alloc:
  assumes "ksyscall_proc_exit c s = Inr (r, s')"
  shows "same_alloc s s'"
proof (cases "active_proc s")
  case None
  with assms show ?thesis by (simp add: ksyscall_proc_exit_def)
next
  case (Some i)
  from assms Some have "scheduler_run c (upd_proc i (\<lambda>p. p\<lparr>state := NONE\<rparr>) s) = Inr s'"
    by (auto simp: ksyscall_proc_exit_def split: sum.splits)
  from scheduler_run_same_alloc[OF this] show ?thesis by (simp add: same_alloc_def)
qed

lemma ksyscall_irq_handler_same_alloc:
  assumes "ksyscall_irq_handler c s = Inr s'"
  shows "same_alloc s s'"
proof -
  from assms obtain i k where i: "active_proc s = Some i"
    and k: "trapframe (proc_table s ! i) = Some k"
    by (auto simp: ksyscall_irq_handler_def split: option.splits)
  define tf where "tf = proc_stack s ! k"
  consider
      (time) "write_eax (ksyscall_sys_get_time s) s = Inr s'"
    | (name) "write_eax (fst (ksyscall_sys_get_name c (ebx tf) s))
                (snd (ksyscall_sys_get_name c (ebx tf) s)) = Inr s'"
    | (exit) rc s1 where "ksyscall_proc_exit c s = Inr (rc, s1)" "write_eax rc s1 = Inr s'"
    | (pid) "write_eax (ksyscall_proc_get_pid s) s = Inr s'"
    | (pname) "write_eax (fst (ksyscall_proc_get_name c (ebx tf) s))
                (snd (ksyscall_proc_get_name c (ebx tf) s)) = Inr s'"
    using assms i k unfolding ksyscall_irq_handler_def tf_def
    by (auto simp: Let_def split: if_splits sum.splits prod.splits)
  then show ?thesis
  proof cases
    case time
    from write_eax_same_alloc[OF this] show ?thesis .
  next
    case name
    have "same_alloc s (snd (ksyscall_sys_get_name c (ebx tf) s))"
      by (simp add: ksyscall_sys_get_name_def write_mem_def)
    from same_alloc_trans[OF this write_eax_same_alloc[OF name]] show ?thesis .
  next
    case exit
    from same_alloc_trans[OF ksyscall_proc_exit_same_alloc[OF exit(1)]
        write_eax_same_alloc[OF exit(2)]]
    show ?thesis .
  next
    case pid
    from write_eax_same_alloc[OF this] show ?thesis .
  next
    case pname
    have "same_alloc s (snd (ksyscall_proc_get_name c (ebx tf) s))"
      by (simp add: ksyscall_proc_get_name_def write_mem_def split: option.splits)
    from same_alloc_trans[OF this write_eax_same_alloc[OF pname]] show ?thesis .
  qed
qed

text \<open>The slot that \<^verbatim>\<open>kproc_create\<close> fills, and the pid it returns.\<close>

lemma kproc_create_effect:
  assumes "kproc_create c ptr nm ty s = Inr (r, s')"
  shows "length (proc_table s') = length (proc_table s) \<and>
      set (proc_allocator s') \<subseteq> set (proc_allocator s) \<and>
      (next_pid s' = next_pid s \<or> next_pid s' = int32 (next_pid s + 1)) \<and>
      (alloc_inv s \<longrightarrow> r = - 1 \<or> r = next_pid s)"
proof -
  show ?thesis
  proof (cases "queue_out (proc_allocator s)")
    case None
    with assms show ?thesis
      by (simp add: kproc_create_def)
  next
    case (Some a)
    obtain entry qa where a: "a = (entry, qa)" by (cases a)
    from Some a have al: "proc_allocator s = entry # qa"
      by (auto simp: queue_out_def split: list.splits)
    show ?thesis
    proof (cases "entry = - 1")
      case True
      with assms Some a al show ?thesis by (auto simp: kproc_create_def)
    next
      case False
      define e where "e = nat entry"
      define s2 where "s2 = upd_proc e (\<lambda>p. p\<lparr>stack := Some e, trapframe := Some e\<rparr>)
                            (s\<lparr>proc_allocator := qa\<rparr>)"
      define s3 where "s3 = (upd_proc e (\<lambda>p. p\<lparr>pid := next_pid s2\<rparr>) s2)\<lparr>next_pid := int32 (next_pid s2 + 1)\<rparr>"
      define s4 where "s4 = upd_proc e (\<lambda>p. p\<lparr>state := IDLE, ptype := ty,
                        start_time := timer_get_ticks s3, run_time := 0, cpu_time := 0\<rparr>) s3"
      define s5 where "s5 = upd_proc e (\<lambda>p. p\<lparr>name :=
                        (strncpy (name p) nm (PROC_NAME_LEN c))
                          [PROC_NAME_LEN c - 1 := NUL]\<rparr>) s4"
      define s6 where "s6 = s5\<lparr>proc_stack := (proc_stack s5)[e := (proc_stack s5 ! e)
                        \<lparr>eip := ptr, eflags := EF_DEFAULT_VALUE c OR EF_INTR c,
                         cs := get_cs c, ds := get_ds c, es := get_es c, fs := get_fs c,
                         gs := get_gs c, esp := stack_top_addr c e\<rparr>]\<rparr>"
      from assms Some a False have add: "scheduler_add c (Some e) s6 = Inr s'"
        and r: "r = pid (proc_table s' ! e)"
        unfolding kproc_create_def s6_def s5_def s4_def s3_def s2_def e_def
        by (auto simp: Let_def split: sum.splits)
      have f6: "length (proc_table s6) = length (proc_table s)" "proc_allocator s6 = qa"
        "next_pid s6 = int32 (next_pid s + 1)"
        by (simp_all add: s6_def s5_def s4_def s3_def s2_def)
      have p6: "pid (proc_table s6 ! e) = next_pid s" if "e < length (proc_table s)"
        using that by (simp add: s6_def s5_def s4_def s3_def s2_def upd_proc_nth)
      note eff = scheduler_add_effect(1,5,6)[OF add]
      have "alloc_inv s \<longrightarrow> r = next_pid s"
      proof
        assume "alloc_inv s"
        with al have "e < length (proc_table s)" by (simp add: alloc_inv_def e_def)
        then show "r = next_pid s" using p6 f6(1) by (simp add: r eff(1))
      qed
      with f6 al show ?thesis by (auto simp: eff)
    qed
  qed
qed

lemma kproc_create_alloc_inv:
  assumes "kproc_create c ptr nm ty s = Inr (r, s')" "alloc_inv s"
  shows "alloc_inv s'"
  using kproc_create_effect[OF assms(1)] assms(2)
  unfolding alloc_inv_def by fastforce

lemma kproc_destroy_alloc_inv:
  assumes "kproc_destroy c proc s = Inr (r, s')" "alloc_inv s"
    and "\<And>i. proc = Some i \<Longrightarrow> i < length (proc_table s)"
  shows "alloc_inv s'"
proof (cases proc)
  case None
  with assms show ?thesis by (simp add: kproc_destroy_def)
next
  case (Some i)
  show ?thesis
  proof (cases "state (proc_table s ! i) = NONE \<or> pid (proc_table s ! i) = 0")
    case True
    with Some assms show ?thesis by (simp add: kproc_destroy_def)
  next
    case False
    with assms(1) Some obtain s1 st where rm: "scheduler_remove c (Some i) s = Inr s1"
      and s': "s' = (upd_proc i (\<lambda>p. proc_zero c) s1)\<lparr>proc_stack := st,
                       proc_allocator := proc_allocator s1 @ [int i]\<rparr>
               \<or> s' = (upd_proc i (\<lambda>p. proc_zero c) s1)\<lparr>proc_stack := st\<rparr>"
      by (auto simp: kproc_destroy_def Let_def queue_in_def proc_to_entry_def
          split: sum.splits option.splits if_splits)
    from scheduler_remove_same_alloc[OF rm] have sa: "same_alloc s s1" .
    from s' show ?thesis
    proof
      assume "s' = (upd_proc i (\<lambda>p. proc_zero c) s1)\<lparr>proc_stack := st\<rparr>"
      then have "same_alloc s s'" using sa by (simp add: same_alloc_def)
      from same_alloc_alloc_inv[OF this assms(2)] show ?thesis .
    next
      assume "s' = (upd_proc i (\<lambda>p. proc_zero c) s1)\<lparr>proc_stack := st,
                       proc_allocator := proc_allocator s1 @ [int i]\<rparr>"
      then have "next_pid s' = next_pid s" "length (proc_table s') = length (proc_table s)"
        "proc_allocator s' = proc_allocator s @ [int i]"
        using sa by (simp_all add: same_alloc_def)
      with assms(2) assms(3)[OF Some] show ?thesis by (auto simp: alloc_inv_def)
    qed
  qed
qed

lemma kstep_alloc_inv:
  assumes "kstep c call s = Inr s'" "alloc_inv s"
  shows "alloc_inv s'"
proof (cases call)
  case (K_create ptr nm ty)
  with assms(1) obtain r where "kproc_create c ptr nm ty s = Inr (r, s')"
    by (auto simp: kstep_def split: sum.splits)
  from kproc_create_alloc_inv[OF this assms(2)] show ?thesis .
next
  case (K_destroy p)
  with assms(1) obtain r where "kproc_destroy c (pid_to_proc s p) s = Inr (r, s')"
    by (auto simp: kstep_def split: sum.splits)
  from kproc_destroy_alloc_inv[OF this assms(2)] pid_to_proc_bound show ?thesis by blast
next
  case K_run
  with assms(1) have "scheduler_run c s = Inr s'" by (simp add: kstep_def)
  from same_alloc_alloc_inv[OF scheduler_run_same_alloc[OF this] assms(2)] show ?thesis .
next
  case K_tick
  with assms(1) have "s' = timer_tick s" by (simp add: kstep_def)
  then have "same_alloc s s'"
    by (simp add: timer_tick_def scheduler_timer_def same_alloc_def split: option.splits)
  from same_alloc_alloc_inv[OF this assms(2)] show ?thesis .
next
  case (K_syscall a b)
  with assms(1) have h: "ksyscall_irq_handler c (load_regs a b s) = Inr s'"
    by (simp add: kstep_def)
  have "same_alloc s (load_regs a b s)" by (simp add: same_alloc_def load_regs_frame)
  from same_alloc_alloc_inv[OF same_alloc_trans[OF this ksyscall_irq_handler_same_alloc[OF h]]
      assms(2)]
  show ?thesis .
next
  case (K_sleep secs)
  with assms(1) obtain r where h: "ksyscall_proc_sleep c secs s = Inr (r, s')"
    by (auto simp: kstep_def split: sum.splits)
  have "same_alloc s s'"
  proof (cases "active_proc s")
    case None
    with h show ?thesis by (simp add: ksyscall_proc_sleep_def)
  next
    case (Some i)
    with h have "scheduler_sleep c (Some i) (int32 (secs * 100)) s = Inr s'"
      by (auto simp: ksyscall_proc_sleep_def split: sum.splits)
    from scheduler_sleep_same_alloc[OF this] show ?thesis .
  qed
  from same_alloc_alloc_inv[OF this assms(2)] show ?thesis .
qed

text \<open>The allocator after \<^verbatim>\<open>kproc_init\<close>'s loop: the indices that fit.\<close>

lemma allocator_fill:
  "fold (\<lambda>i q. case queue_in c q (int i) of None \<Rightarrow> q | Some q' \<Rightarrow> q') [0..<n] queue_init
   = map int [0..<min n (QUEUE_SIZE c)]"
proof (induction n)
  case 0
  then show ?case by (simp add: queue_init_def)
next
  case (Suc n)
  show ?case
  proof (cases "n < QUEUE_SIZE c")
    case True
    then have "min n (QUEUE_SIZE c) = n" "min (Suc n) (QUEUE_SIZE c) = Suc n" by simp_all
    with Suc True show ?thesis by (simp add: queue_in_def)
  next
    case False
    then have "min n (QUEUE_SIZE c) = QUEUE_SIZE c" "min (Suc n) (QUEUE_SIZE c) = QUEUE_SIZE c"
      by simp_all
    with Suc False show ?thesis by (simp add: queue_in_def)
  qed
qed

text \<open>\<^verbatim>\<open>kproc_init\<close> on the zero-initialised kernel: the idle process gets slot 0 and
  pid 0, and its pid is put into the run queue.\<close>

lemma kproc_init_result:
  assumes "kproc_init c s0 = Inr s"
    and pre: "run_queue s0 = []" "next_pid s0 = 0" "length (proc_table s0) = PROC_MAX c"
  shows "run_queue s = [0]" and "pid_to_proc s 0 = Some 0" and "next_pid s = 1"
    and "alloc_inv s"
    and "proc_table s \<noteq> [] \<and> pid (proc_table s ! 0) = 0 \<and> state (proc_table s ! 0) = IDLE"
    and "0 \<notin> set (proc_allocator s)" and "sleep_queue s = sleep_queue s0"
proof -
  define m where "m = min (PROC_MAX c) (QUEUE_SIZE c)"
  define s2 where "s2 = s0\<lparr>proc_table := map (\<lambda>p. p\<lparr>pid := - 1\<rparr>) (proc_table s0),
     proc_allocator := map int [0..<m]\<rparr>"
  from assms obtain r where cr: "kproc_create c (kproc_idle_addr c) ''kernel_idle'' PROC_TYPE_KERNEL s2 = Inr (r, s)"
    and r: "r \<noteq> - 1"
    unfolding kproc_init_def s2_def m_def allocator_fill
    by (auto simp: Let_def split: sum.splits if_splits)
  have m: "0 < m"
  proof (rule ccontr)
    assume "\<not> 0 < m"
    then have "proc_allocator s2 = []" by (simp add: s2_def)
    with cr r show False by (simp add: kproc_create_def queue_out_def)
  qed
  then have pm: "0 < PROC_MAX c" and qs: "0 < QUEUE_SIZE c" by (simp_all add: m_def)
  from m have al: "proc_allocator s2 = 0 # map int [1..<m]"
    by (simp add: s2_def upt_conv_Cons)
  have len2: "length (proc_table s2) = PROC_MAX c"
    by (simp add: s2_def pre)
  have f2: "next_pid s2 = 0" "run_queue s2 = []"
    by (simp_all add: s2_def pre)
  define s6 where "s6 =
     (let s1 = s2\<lparr>proc_allocator := map int [1..<m]\<rparr>;
          s2' = upd_proc 0 (\<lambda>p. p\<lparr>stack := Some 0, trapframe := Some 0\<rparr>) s1;
          s3 = (upd_proc 0 (\<lambda>p. p\<lparr>pid := next_pid s2'\<rparr>) s2')
                 \<lparr>next_pid := int32 (next_pid s2' + 1)\<rparr>;
          s4 = upd_proc 0 (\<lambda>p. p\<lparr>state := IDLE, ptype := PROC_TYPE_KERNEL,
                 start_time := timer_get_ticks s3, run_time := 0, cpu_time := 0\<rparr>) s3;
          s5 = upd_proc 0 (\<lambda>p. p\<lparr>name :=
                 (strncpy (name p) ''kernel_idle'' (PROC_NAME_LEN c))
                   [PROC_NAME_LEN c - 1 := NUL]\<rparr>) s4
      in s5\<lparr>proc_stack := (proc_stack s5)[0 := (proc_stack s5 ! 0)
                 \<lparr>eip := kproc_idle_addr c, eflags := EF_DEFAULT_VALUE c OR EF_INTR c,
                  cs := get_cs c, ds := get_ds c, es := get_es c, fs := get_fs c,
                  gs := get_gs c, esp := stack_top_addr c 0\<rparr>]\<rparr>)"
  from cr al have add: "scheduler_add c (Some 0) s6 = Inr s"
    unfolding kproc_create_def s6_def
    by (simp add: queue_out_def Let_def split: sum.splits)
  have f6: "length (proc_table s6) = PROC_MAX c" "next_pid s6 = 1" "run_queue s6 = []"
    "proc_allocator s6 = map int [1..<m]" "pid (proc_table s6 ! 0) = 0"
    "sleep_queue s6 = sleep_queue s0"
    using pm len2 f2 by (simp_all add: s6_def s2_def Let_def upd_proc_nth int32_def)
  note eff = scheduler_add_effect[OF add]
  from eff(1) f6(1) pm have t0: "pid (proc_table s ! 0) = 0" "state (proc_table s ! 0) = IDLE"
    and len: "length (proc_table s) = PROC_MAX c"
    using f6(5) by simp_all
  show "run_queue s = [0]" using eff(4) f6(3) t0 by simp
  show "next_pid s = 1" using eff(5) f6(2) by simp
  from len pm obtain x xs where x: "proc_table s = x # xs" by (cases "proc_table s") auto
  with t0 show "pid_to_proc s 0 = Some 0" by (simp add: pid_to_proc_def)
  have "\<forall>e \<in> set (map int [1..<m]). 0 \<le> e \<and> nat e < PROC_MAX c"
    by (auto simp: m_def)
  then show "alloc_inv s"
    unfolding alloc_inv_def len eff(6) f6(4) by simp
  from x t0 show "proc_table s \<noteq> [] \<and> pid (proc_table s ! 0) = 0 \<and> state (proc_table s ! 0) = IDLE"
    by simp
  show "0 \<notin> set (proc_allocator s)" unfolding eff(6) f6(4) by auto
  show "sleep_queue s = sleep_queue s0" unfolding eff(3) f6(6) ..
qed

lemma kernel_boot_result:
  assumes "kernel_boot c um = Inr s"
  shows "run_queue s = [0]" and "pid_to_proc s 0 = Some 0" and "next_pid s = 1"
    and "alloc_inv s"
    and "proc_table s \<noteq> [] \<and> pid (proc_table s ! 0) = 0 \<and> state (proc_table s ! 0) = IDLE"
    and "0 \<notin> set (proc_allocator s)" and "sleep_queue s = []"
proof -
  from assms have "kproc_init c (scheduler_init (boot_state c um)) = Inr s"
    by (simp add: kernel_boot_def)
  from kproc_init_result[OF this]
  show "run_queue s = [0]" and "pid_to_proc s 0 = Some 0" and "next_pid s = 1"
    and "alloc_inv s"
    and "proc_table s \<noteq> [] \<and> pid (proc_table s ! 0) = 0 \<and> state (proc_table s ! 0) = IDLE"
    and "0 \<notin> set (proc_allocator s)" and "sleep_queue s = []"
    by (simp_all add: scheduler_init_def boot_state_def queue_init_def)
qed

lemma reachable_by_alloc_inv: "reachable_by c n s \<Longrightarrow> alloc_inv s"
proof (induction rule: reachable_by.induct)
  case (boot um s)
  from kernel_boot_result(4)[OF this] show ?case .
next
  case (boot_late um s)
  from kproc_init_result(4)[OF boot_late] have "alloc_inv s" by (simp add: boot_state_def)
  moreover have "same_alloc s (scheduler_init s)" by (simp add: scheduler_init_def same_alloc_def)
  ultimately show ?case by (rule same_alloc_alloc_inv[rotated])
next
  case (step n s call s')
  from kstep_alloc_inv[OF step(3) step(4)] show ?case .
qed

section \<open>What the scheduler puts into its queues\<close>

lemma upd_proc_pid:
  assumes "\<And>p. pid (f p) = pid p"
  shows "pid (proc_table (upd_proc i f s) ! k) = pid (proc_table s ! k)"
proof (cases "k = i")
  case False
  then show ?thesis by (simp add: upd_proc_def)
next
  case True
  then show ?thesis
    by (cases "i < length (proc_table s)") (simp_all add: upd_proc_def assms list_update_beyond)
qed

lemma scheduler_add_run_queue:
  assumes "scheduler_add c (Some j) s = Inr s'"
  shows "run_queue s' = run_queue s @ [pid (proc_table s ! j)]"
proof -
  note eff = scheduler_add_effect[OF assms]
  have "pid (proc_table s' ! j) = pid (proc_table s ! j)"
    by (cases "j < length (proc_table s)") (simp_all add: eff(1) list_update_beyond)
  with eff(4) show ?thesis by simp
qed

text \<open>The sweep moves pids from the sleep queue to the run queue and brings in no
  other pid.\<close>

lemma sweep_loop_queues:
  assumes "sweep_loop c now i s = Inr s'"
    and "set (run_queue s) \<union> set (sleep_queue s) \<subseteq> A"
  shows "set (run_queue s') \<union> set (sleep_queue s') \<subseteq> A"
proof -
  define P where "P = (\<lambda>x::kernel. set (run_queue x) \<union> set (sleep_queue x) \<subseteq> A)"
  have init: "P s" using assms by (simp add: P_def)
  have wake: "P s2"
    if "P s0" "sleep_queue s0 = v # q1" "pid_to_proc (s0\<lparr>sleep_queue := q1\<rparr>) v = Some j"
      "scheduler_add c (Some j) (s0\<lparr>sleep_queue := q1\<rparr>) = Inr s2"
    for s0 v q1 j s2
  proof -
    from pid_to_proc_sound[OF that(3)] have "pid (proc_table s0 ! j) = v" by simp
    with scheduler_add_run_queue[OF that(4)] scheduler_add_effect(3)[OF that(4)] that(1,2)
    show ?thesis by (auto simp: P_def)
  qed
  have keep: "P (s0\<lparr>sleep_queue := q2\<rparr>)"
    if "P s0" "sleep_queue s0 = v # q1" "pid_to_proc (s0\<lparr>sleep_queue := q1\<rparr>) v = Some j"
      "q2 = q1 \<or> q2 = q1 @ [pid (proc_table s0 ! j)]"
    for s0 v q1 j q2
  proof -
    from pid_to_proc_sound[OF that(3)] have "pid (proc_table s0 ! j) = v" by simp
    with that(1,2,4) show ?thesis by (auto simp: P_def)
  qed
  have "P s'"
    by (rule sweep_loop_rule[where P = P, OF assms(1) init]) (blast intro: wake keep)+
  then show ?thesis by (simp add: P_def)
qed

lemma run_unschedule_queues:
  assumes "run_unschedule c s = Inr s'"
    and "set (run_queue s) \<union> set (sleep_queue s) \<subseteq> A"
    and "\<And>a. active_proc s = Some a \<Longrightarrow> pid (proc_table s ! a) \<noteq> 0 \<Longrightarrow>
           pid (proc_table s ! a) \<in> A"
  shows "set (run_queue s') \<union> set (sleep_queue s') \<subseteq> A"
proof (cases "active_proc s")
  case None
  with assms show ?thesis by (simp add: run_unschedule_def)
next
  case (Some i)
  show ?thesis
  proof (cases "cpu_time (proc_table s ! i) \<ge> SCHEDULER_TIMESLICE c")
    case False
    with Some assms show ?thesis by (simp add: run_unschedule_def)
  next
    case True
    let ?s1 = "upd_proc i (\<lambda>p. p\<lparr>cpu_time := 0\<rparr>) s"
    have p1: "pid (proc_table ?s1 ! i) = pid (proc_table s ! i)"
      by (rule upd_proc_pid) simp
    show ?thesis
    proof (cases "pid (proc_table s ! i) \<noteq> 0")
      case idle: False
      with assms(1,2) Some True p1 show ?thesis
        by (auto simp: run_unschedule_def Let_def)
    next
      case other: True
      with assms(1) Some True p1 obtain s2 where add: "scheduler_add c (Some i) ?s1 = Inr s2"
        and s': "s' = s2\<lparr>active_proc := None\<rparr>"
        by (auto simp: run_unschedule_def Let_def split: sum.splits)
      from scheduler_add_run_queue[OF add] scheduler_add_effect(3)[OF add] p1
        assms(2) assms(3)[OF Some other]
      show ?thesis unfolding s' by simp
    qed
  qed
qed

lemma run_unschedule_active:
  assumes "run_unschedule c s = Inr s'" "active_proc s' = Some a"
  shows "active_proc s = Some a \<and> pid (proc_table s' ! a) = pid (proc_table s ! a)"
  using assms
  by (auto simp: run_unschedule_def Let_def split: option.splits if_splits sum.splits)

lemma run_select_queues:
  assumes "run_select c s = Inr s'" "active_proc s = None"
    and "set (run_queue s) \<union> set (sleep_queue s) \<subseteq> A"
  shows "set (run_queue s') \<subseteq> A"
    and "\<exists>j. active_proc s' = Some j \<and> pid (proc_table s' ! j) \<in> insert 0 A"
proof -
  from assms(1,2) obtain s1 where
    sw: "(if \<not> queue_is_empty (sleep_queue s)
          then sweep_loop c (timer_get_ticks s) 0 s else Inr s) = Inr s1"
    and sel: "\<exists>j. (run_queue s1 = [] \<and> pid_to_proc s1 0 = Some j
                    \<and> s' = s1\<lparr>active_proc := Some j\<rparr>)
              \<or> (\<exists>v q. run_queue s1 = v # q \<and> pid_to_proc (s1\<lparr>run_queue := q\<rparr>) v = Some j
                    \<and> s' = s1\<lparr>run_queue := q, active_proc := Some j\<rparr>)"
    by (auto simp: run_select_def Let_def queue_out_def
        split: sum.splits option.splits prod.splits list.splits)
  have q1: "set (run_queue s1) \<union> set (sleep_queue s1) \<subseteq> A"
  proof (cases "queue_is_empty (sleep_queue s)")
    case True
    with sw assms(3) show ?thesis by simp
  next
    case False
    with sw have "sweep_loop c (timer_get_ticks s) 0 s = Inr s1" by simp
    from sweep_loop_queues[OF this assms(3)] show ?thesis .
  qed
  from sel obtain j where j:
    "(run_queue s1 = [] \<and> pid_to_proc s1 0 = Some j \<and> s' = s1\<lparr>active_proc := Some j\<rparr>)
     \<or> (\<exists>v q. run_queue s1 = v # q \<and> pid_to_proc (s1\<lparr>run_queue := q\<rparr>) v = Some j
           \<and> s' = s1\<lparr>run_queue := q, active_proc := Some j\<rparr>)" by blast
  then show "set (run_queue s') \<subseteq> A" using q1 by auto
  from j show "\<exists>j. active_proc s' = Some j \<and> pid (proc_table s' ! j) \<in> insert 0 A"
  proof
    assume a: "run_queue s1 = [] \<and> pid_to_proc s1 0 = Some j \<and> s' = s1\<lparr>active_proc := Some j\<rparr>"
    then have "pid (proc_table s1 ! j) = 0" using pid_to_proc_sound[of s1 0 j] by simp
    with a show ?thesis by simp
  next
    assume "\<exists>v q. run_queue s1 = v # q \<and> pid_to_proc (s1\<lparr>run_queue := q\<rparr>) v = Some j
           \<and> s' = s1\<lparr>run_queue := q, active_proc := Some j\<rparr>"
    then obtain v q where a: "run_queue s1 = v # q"
      "pid_to_proc (s1\<lparr>run_queue := q\<rparr>) v = Some j"
      "s' = s1\<lparr>run_queue := q, active_proc := Some j\<rparr>" by blast
    from pid_to_proc_sound[OF a(2)] have "pid (proc_table s1 ! j) = v" by simp
    with a q1 show ?thesis by auto
  qed
qed

text \<open>Where the process chosen by \<^verbatim>\<open>scheduler_run\<close> comes from: it is the process that
  was active, or its pid waited in one of the two queues, or it is pid 0.\<close>

lemma scheduler_run_choice:
  assumes "scheduler_run c s = Inr s'"
  shows "\<exists>i. active_proc s' = Some i \<and>
           pid (proc_table s' ! i) \<in> insert 0 (set (run_queue s) \<union> set (sleep_queue s) \<union>
              (case active_proc s of None \<Rightarrow> {} | Some a \<Rightarrow> {pid (proc_table s ! a)}))"
    and "0 \<notin> set (run_queue s) \<Longrightarrow> 0 \<notin> set (sleep_queue s) \<Longrightarrow> 0 \<notin> set (run_queue s')"
proof -
  define A where "A = set (run_queue s) \<union> set (sleep_queue s) \<union>
              (case active_proc s of None \<Rightarrow> {} | Some a \<Rightarrow> {pid (proc_table s ! a)})"
  define s0 where "s0 = (case active_proc s of
                  None \<Rightarrow> s
                | Some i \<Rightarrow>
                    if state (proc_table s ! i) \<noteq> ACTIVE then s\<lparr>active_proc := None\<rparr> else s)"
  have 0: "run_queue s0 = run_queue s" "sleep_queue s0 = sleep_queue s"
    "proc_table s0 = proc_table s"
    by (simp_all add: s0_def split: option.splits)
  have a0: "active_proc s0 = Some a \<Longrightarrow> active_proc s = Some a" for a
    by (auto simp: s0_def split: option.splits if_splits)
  from assms(1) obtain s1 s2 i where
    u: "run_unschedule c s0 = Inr s1" and sel: "run_select c s1 = Inr s2"
    and i: "active_proc s2 = Some i"
    and s': "s' = upd_proc i (\<lambda>p. p\<lparr>state := ACTIVE\<rparr>) s2"
    unfolding scheduler_run_def s0_def[symmetric]
    by (auto simp: Let_def split: sum.splits option.splits)
  have pid': "pid (proc_table s' ! k) = pid (proc_table s2 ! k)" for k
    unfolding s' by (rule upd_proc_pid) simp
  have act': "active_proc s' = active_proc s2" and rq': "run_queue s' = run_queue s2"
    by (simp_all add: s')
  have q1: "set (run_queue s1) \<union> set (sleep_queue s1) \<subseteq> B"
    if "set (run_queue s) \<union> set (sleep_queue s) \<subseteq> B"
      "\<And>a. active_proc s = Some a \<Longrightarrow> pid (proc_table s ! a) \<noteq> 0 \<Longrightarrow> pid (proc_table s ! a) \<in> B"
    for B
    using run_unschedule_queues[OF u, of B] that a0 by (simp add: 0)
  show "\<exists>i. active_proc s' = Some i \<and>
           pid (proc_table s' ! i) \<in> insert 0 (set (run_queue s) \<union> set (sleep_queue s) \<union>
              (case active_proc s of None \<Rightarrow> {} | Some a \<Rightarrow> {pid (proc_table s ! a)}))"
  proof (cases "active_proc s1")
    case (Some a)
    with sel have "s2 = s1" by (simp add: run_select_def)
    with Some i have ia: "i = a" by simp
    from run_unschedule_active[OF u Some] a0
    have "active_proc s = Some a" "pid (proc_table s1 ! a) = pid (proc_table s ! a)"
      by (simp_all add: 0)
    with \<open>s2 = s1\<close> ia i show ?thesis by (simp add: pid' act')
  next
    case None
    have "set (run_queue s1) \<union> set (sleep_queue s1) \<subseteq> A"
      by (rule q1) (auto simp: A_def)
    from run_select_queues(2)[OF sel None this] show ?thesis
      by (simp add: pid' act' A_def)
  qed
  show "0 \<notin> set (run_queue s')" if "0 \<notin> set (run_queue s)" "0 \<notin> set (sleep_queue s)"
  proof (cases "active_proc s1")
    case (Some a)
    with sel have "s2 = s1" by (simp add: run_select_def)
    moreover have "set (run_queue s1) \<union> set (sleep_queue s1) \<subseteq> {x. x \<noteq> 0}"
      by (rule q1) (use that in auto)
    ultimately show ?thesis by (auto simp: rq')
  next
    case None
    have "set (run_queue s1) \<union> set (sleep_queue s1) \<subseteq> {x. x \<noteq> 0}"
      by (rule q1) (use that in auto)
    from run_select_queues(1)[OF sel None this] show ?thesis by (auto simp: rq')
  qed
qed

section \<open>The idle process\<close>

lemma int32_id: "- 2147483648 \<le> x \<Longrightarrow> x \<le> INT_MAX \<Longrightarrow> int32 x = x"
  by (simp add: int32_def INT_MAX_def)

text \<open>The removal loop takes out no pid other than the one it looks for.\<close>

lemma remove_loop_count:
  "remove_loop c p i q = Inr q' \<Longrightarrow> v \<noteq> p \<Longrightarrow> count_list q' v = count_list q v"
proof (induction c p i q rule: remove_loop.induct)
  case (1 c p i q)
  show ?case
  proof (cases "i < length q")
    case False
    with "1.prems"(1) have "q' = q" by (subst (asm) remove_loop.simps) simp
    then show ?thesis by simp
  next
    case True
    then obtain x xs where q: "q = x # xs" by (cases q) auto
    have qo: "queue_out q = Some (x, xs)" by (simp add: q queue_out_def)
    show ?thesis
    proof (cases "p = x")
      case same: True
      from "1.prems"(1) True qo same have "remove_loop c p (Suc i) xs = Inr q'"
        by (subst (asm) remove_loop.simps) simp
      from "1.IH"(1)[OF True qo refl same this "1.prems"(2)] "1.prems"(2) same q
      show ?thesis by simp
    next
      case other: False
      from "1.prems"(1) True qo other obtain q2 where
        qi: "queue_in c xs x = Some q2" and rest: "remove_loop c p (Suc i) q2 = Inr q'"
        by (subst (asm) remove_loop.simps) (auto split: option.splits)
      from qi have q2: "q2 = xs @ [x]" by (auto simp: queue_in_def split: if_splits)
      from "1.IH"(2)[OF True qo refl other qi rest "1.prems"(2)] q q2
      show ?thesis by simp
    qed
  qed
qed

lemma upd_proc_empty [simp]: "proc_table (upd_proc i f s) = [] \<longleftrightarrow> proc_table s = []"
  by (simp add: upd_proc_def)

lemma same_procs_refl [simp]: "same_procs s s"
  by (simp add: same_procs_def)

lemma same_procs_trans: "same_procs s s1 \<Longrightarrow> same_procs s1 s2 \<Longrightarrow> same_procs s s2"
  by (simp add: same_procs_def)

lemma same_procs_table: "proc_table s' = proc_table s \<Longrightarrow> same_procs s s'"
  by (simp add: same_procs_def)

lemma same_procs_upd_proc:
  assumes "\<And>p. pid (f p) = pid p" "\<And>p. state p \<noteq> NONE \<Longrightarrow> state (f p) \<noteq> NONE"
  shows "same_procs s (upd_proc i f s)"
  using assms by (simp add: same_procs_def upd_proc_nth)

lemma idle_kept_refl: "0 \<notin> set (sleep_queue s) \<Longrightarrow> idle_kept s s"
  by (simp add: idle_kept_def)

lemma idle_kept_trans: "idle_kept s s1 \<Longrightarrow> idle_kept s1 s2 \<Longrightarrow> idle_kept s s2"
  unfolding idle_kept_def using same_procs_trans by fastforce

lemma idle_kept_frame:
  assumes "proc_table s' = proc_table s" "proc_allocator s' = proc_allocator s"
    "run_queue s' = run_queue s" "sleep_queue s' = sleep_queue s" "0 \<notin> set (sleep_queue s)"
  shows "idle_kept s s'"
  using assms by (simp add: idle_kept_def same_procs_table)

lemma idle_kept_idle_inv:
  assumes "idle_inv s" "idle_kept s s'"
  shows "idle_inv s'" and "count_list (run_queue s') 0 \<le> count_list (run_queue s) 0"
proof -
  from assms(1) have ne: "0 < length (proc_table s)" by (simp add: idle_inv_def)
  from assms(2) have sp: "same_procs s s'" by (simp add: idle_kept_def)
  from sp ne have "0 < length (proc_table s')" "pid (proc_table s' ! 0) = pid (proc_table s ! 0)"
    "state (proc_table s ! 0) \<noteq> NONE \<longrightarrow> state (proc_table s' ! 0) \<noteq> NONE"
    by (simp_all add: same_procs_def)
  with assms show "idle_inv s'" by (simp add: idle_inv_def idle_kept_def)
  from assms(2) show "count_list (run_queue s') 0 \<le> count_list (run_queue s) 0"
    by (simp add: idle_kept_def)
qed

lemma scheduler_add_idle_kept:
  assumes "scheduler_add c (Some i) s = Inr s'" "pid (proc_table s ! i) \<noteq> 0"
    "0 \<notin> set (sleep_queue s)"
  shows "idle_kept s s'"
proof -
  note eff = scheduler_add_effect[OF assms(1)]
  have "proc_table s' = proc_table (upd_proc i
      (\<lambda>p. p\<lparr>scheduler_queue := Some RUN_QUEUE, state := IDLE, cpu_time := 0\<rparr>) s)"
    by (simp add: eff(1) upd_proc_def)
  moreover have "same_procs s (upd_proc i
      (\<lambda>p. p\<lparr>scheduler_queue := Some RUN_QUEUE, state := IDLE, cpu_time := 0\<rparr>) s)"
    by (rule same_procs_upd_proc) simp_all
  ultimately have "same_procs s s'" by (simp add: same_procs_def)
  moreover have "count_list (run_queue s') 0 = count_list (run_queue s) 0"
    using scheduler_add_run_queue[OF assms(1)] assms(2) by simp
  ultimately show ?thesis using eff(3,6) assms(3) by (simp add: idle_kept_def)
qed

lemma scheduler_remove_idle_kept:
  assumes "scheduler_remove c (Some i) s = Inr s'" "pid (proc_table s ! i) \<noteq> 0"
    "0 \<notin> set (sleep_queue s)"
  shows "idle_kept s s'"
proof -
  note eff = scheduler_remove_effect[OF assms(1)]
  have sp: "same_procs s s'" unfolding same_procs_def using eff(1,2,3) by simp
  have q: "count_list (run_queue s') 0 = count_list (run_queue s) 0
         \<and> count_list (sleep_queue s') 0 = count_list (sleep_queue s) 0"
  proof (cases "scheduler_queue (proc_table s ! i)")
    case None
    with assms(1) show ?thesis by (auto simp: scheduler_remove_def split: if_splits)
  next
    case (Some qid)
    with assms(1) obtain q where
      loop: "remove_loop c (pid (proc_table s ! i)) 0 (queue_of s qid) = Inr q"
      and rq: "run_queue s' = run_queue (set_queue qid q s)"
      and sq: "sleep_queue s' = sleep_queue (set_queue qid q s)"
      by (auto simp: scheduler_remove_def split: sum.splits if_splits)
    from remove_loop_count[OF loop, of 0] assms(2)
    have "count_list q 0 = count_list (queue_of s qid) 0" by simp
    then show ?thesis unfolding rq sq
      by (cases qid) (simp_all add: set_queue_def queue_of_def)
  qed
  from q assms(3) have "0 \<notin> set (sleep_queue s')"
    by (simp add: count_list_0_iff[symmetric])
  with sp q eff(6) show ?thesis by (simp add: idle_kept_def)
qed

lemma scheduler_sleep_idle_kept:
  assumes "scheduler_sleep c (Some i) t s = Inr s'" "pid (proc_table s ! i) \<noteq> 0"
    "0 \<notin> set (sleep_queue s)" "i < length (proc_table s)"
  shows "idle_kept s s'"
proof -
  define s2 where "s2 = upd_proc i (\<lambda>p. p\<lparr>state := SLEEPING\<rparr>)
      (upd_proc i (\<lambda>p. p\<lparr>sleep_time := int32 (timer_get_ticks s + t)\<rparr>) s)"
  from assms(1) obtain s3 where rm: "scheduler_remove c (Some i) s2 = Inr s3"
    and s': "s' = s3 \<or> s' = s3\<lparr>sleep_queue := sleep_queue s3 @ [pid (proc_table s3 ! i)]\<rparr>"
    unfolding scheduler_sleep_def s2_def
    by (auto simp: Let_def queue_in_def split: sum.splits option.splits if_splits)
  have p2: "pid (proc_table s2 ! i) = pid (proc_table s ! i)"
    using assms(4) by (simp add: s2_def upd_proc_nth)
  have "same_procs s s2"
    unfolding s2_def
    by (rule same_procs_trans[OF same_procs_upd_proc same_procs_upd_proc]) simp_all
  then have k2: "idle_kept s s2" using assms(3) by (simp add: idle_kept_def s2_def)
  have "pid (proc_table s2 ! i) \<noteq> 0" using p2 assms(2) by simp
  moreover have "0 \<notin> set (sleep_queue s2)" using assms(3) by (simp add: s2_def)
  ultimately have k3: "idle_kept s2 s3"
    using rm by (intro scheduler_remove_idle_kept)
  have p3: "pid (proc_table s3 ! i) \<noteq> 0"
    using scheduler_remove_effect(3)[OF rm, of i] assms(2,4) p2 by (simp add: s2_def)
  have k4: "idle_kept s3 s'"
    using s' k3 p3 by (auto simp: idle_kept_def same_procs_def)
  from idle_kept_trans[OF idle_kept_trans[OF k2 k3] k4] show ?thesis .
qed

lemma sweep_loop_idle_kept:
  assumes "sweep_loop c now i s = Inr s'" "0 \<notin> set (sleep_queue s)"
  shows "idle_kept s s'"
proof -
  define P where "P = (\<lambda>x::kernel. idle_kept s x)"
  have init: "P s" using assms(2) by (simp add: P_def idle_kept_refl)
  have wake: "P s2"
    if "P s0" "sleep_queue s0 = v # q1" "pid_to_proc (s0\<lparr>sleep_queue := q1\<rparr>) v = Some j"
      "scheduler_add c (Some j) (s0\<lparr>sleep_queue := q1\<rparr>) = Inr s2"
    for s0 v q1 j s2
  proof -
    from that(1,2) have v: "v \<noteq> 0" and q1: "0 \<notin> set q1" by (auto simp: P_def idle_kept_def)
    from pid_to_proc_sound[OF that(3)] have pj: "pid (proc_table s0 ! j) = v" by simp
    have a: "idle_kept s0 (s0\<lparr>sleep_queue := q1\<rparr>)"
      using q1 by (simp add: idle_kept_def same_procs_def)
    have b: "idle_kept (s0\<lparr>sleep_queue := q1\<rparr>) s2"
      using that(4) by (rule scheduler_add_idle_kept) (simp_all add: pj v q1)
    from idle_kept_trans[OF idle_kept_trans[OF that(1)[unfolded P_def] a] b]
    show ?thesis by (simp add: P_def)
  qed
  have keep: "P (s0\<lparr>sleep_queue := q2\<rparr>)"
    if "P s0" "sleep_queue s0 = v # q1" "pid_to_proc (s0\<lparr>sleep_queue := q1\<rparr>) v = Some j"
      "q2 = q1 \<or> q2 = q1 @ [pid (proc_table s0 ! j)]"
    for s0 v q1 j q2
  proof -
    from that(1,2) have v: "v \<noteq> 0" and q1: "0 \<notin> set q1" by (auto simp: P_def idle_kept_def)
    from pid_to_proc_sound[OF that(3)] have pj: "pid (proc_table s0 ! j) = v" by simp
    from that(4) pj v q1 have "0 \<notin> set q2" by auto
    then have "idle_kept s0 (s0\<lparr>sleep_queue := q2\<rparr>)"
      by (simp add: idle_kept_def same_procs_def)
    from idle_kept_trans[OF that(1)[unfolded P_def] this] show ?thesis by (simp add: P_def)
  qed
  have "P s'"
    by (rule sweep_loop_rule[where P = P, OF assms(1) init]) (blast intro: wake keep)+
  then show ?thesis by (simp add: P_def)
qed

lemma run_unschedule_idle_kept:
  assumes "run_unschedule c s = Inr s'" "0 \<notin> set (sleep_queue s)"
  shows "idle_kept s s'"
proof (cases "active_proc s")
  case None
  with assms show ?thesis by (simp add: run_unschedule_def idle_kept_refl)
next
  case (Some i)
  show ?thesis
  proof (cases "cpu_time (proc_table s ! i) \<ge> SCHEDULER_TIMESLICE c")
    case False
    with Some assms show ?thesis by (simp add: run_unschedule_def idle_kept_refl)
  next
    case True
    let ?s1 = "upd_proc i (\<lambda>p. p\<lparr>cpu_time := 0\<rparr>) s"
    have p1: "pid (proc_table ?s1 ! i) = pid (proc_table s ! i)"
      by (rule upd_proc_pid) simp
    have "same_procs s ?s1" by (rule same_procs_upd_proc) simp_all
    then have k1: "idle_kept s ?s1" using assms(2) by (simp add: idle_kept_def)
    show ?thesis
    proof (cases "pid (proc_table s ! i) \<noteq> 0")
      case idle: False
      with assms(1) Some True p1
      have s': "s' = (upd_proc i (\<lambda>p. p\<lparr>state := IDLE\<rparr>) ?s1)\<lparr>active_proc := None\<rparr>"
        by (auto simp: run_unschedule_def Let_def)
      have "same_procs ?s1 (upd_proc i (\<lambda>p. p\<lparr>state := IDLE\<rparr>) ?s1)"
        by (rule same_procs_upd_proc) simp_all
      then have "idle_kept ?s1 s'" using assms(2) by (simp add: idle_kept_def s' same_procs_def)
      from idle_kept_trans[OF k1 this] show ?thesis .
    next
      case other: True
      with assms(1) Some True p1 obtain s2 where add: "scheduler_add c (Some i) ?s1 = Inr s2"
        and s': "s' = s2\<lparr>active_proc := None\<rparr>"
        by (auto simp: run_unschedule_def Let_def split: sum.splits)
      have k2: "idle_kept ?s1 s2"
        using add by (rule scheduler_add_idle_kept) (simp_all add: p1 other assms(2))
      then have "idle_kept ?s1 s'" by (simp add: idle_kept_def s' same_procs_def)
      from idle_kept_trans[OF k1 this] show ?thesis .
    qed
  qed
qed

lemma run_select_idle_kept:
  assumes "run_select c s = Inr s'" "0 \<notin> set (sleep_queue s)"
  shows "idle_kept s s'"
proof (cases "active_proc s")
  case (Some i)
  with assms show ?thesis by (simp add: run_select_def idle_kept_refl)
next
  case None
  from assms(1) None obtain s1 where
    sw: "(if \<not> queue_is_empty (sleep_queue s)
          then sweep_loop c (timer_get_ticks s) 0 s else Inr s) = Inr s1"
    and s': "\<exists>a. s' = s1\<lparr>active_proc := a\<rparr>
               \<or> (\<exists>v q. run_queue s1 = v # q \<and> s' = s1\<lparr>run_queue := q, active_proc := a\<rparr>)"
    by (auto simp: run_select_def Let_def queue_out_def
        split: sum.splits option.splits prod.splits list.splits)
  have k1: "idle_kept s s1"
  proof (cases "queue_is_empty (sleep_queue s)")
    case True
    with sw assms(2) show ?thesis by (simp add: idle_kept_refl)
  next
    case False
    with sw have "sweep_loop c (timer_get_ticks s) 0 s = Inr s1" by simp
    from sweep_loop_idle_kept[OF this assms(2)] show ?thesis .
  qed
  then have "0 \<notin> set (sleep_queue s1)" by (simp add: idle_kept_def)
  with s' have "idle_kept s1 s'" by (auto simp: idle_kept_def same_procs_def)
  from idle_kept_trans[OF k1 this] show ?thesis .
qed

lemma scheduler_run_idle_kept:
  assumes "scheduler_run c s = Inr s'" "0 \<notin> set (sleep_queue s)"
  shows "idle_kept s s'"
proof -
  define s0 where "s0 = (case active_proc s of
                  None \<Rightarrow> s
                | Some i \<Rightarrow>
                    if state (proc_table s ! i) \<noteq> ACTIVE then s\<lparr>active_proc := None\<rparr> else s)"
  have k0: "idle_kept s s0"
    using assms(2) by (simp add: s0_def idle_kept_def same_procs_def split: option.splits)
  from assms(1) obtain s1 s2 i where
    u: "run_unschedule c s0 = Inr s1" and sel: "run_select c s1 = Inr s2"
    and s': "s' = upd_proc i (\<lambda>p. p\<lparr>state := ACTIVE\<rparr>) s2"
    unfolding scheduler_run_def s0_def[symmetric]
    by (auto simp: Let_def split: sum.splits option.splits)
  from k0 have q0: "0 \<notin> set (sleep_queue s0)" by (simp add: idle_kept_def)
  note k1 = run_unschedule_idle_kept[OF u q0]
  then have q1: "0 \<notin> set (sleep_queue s1)" by (simp add: idle_kept_def)
  note k2 = run_select_idle_kept[OF sel q1]
  then have q2: "0 \<notin> set (sleep_queue s2)" by (simp add: idle_kept_def)
  have "same_procs s2 s'" unfolding s' by (rule same_procs_upd_proc) simp_all
  then have k3: "idle_kept s2 s'" using q2 by (simp add: idle_kept_def s')
  from idle_kept_trans[OF idle_kept_trans[OF idle_kept_trans[OF k0 k1] k2] k3] show ?thesis .
qed

text \<open>What \<^verbatim>\<open>kproc_create\<close> does to slot 0 and to the queues, when slot 0 is not in
  the allocator.\<close>

lemma kproc_create_idle:
  assumes "kproc_create c ptr nm ty s = Inr (r, s')" "alloc_inv s"
    "0 \<notin> set (proc_allocator s)" "proc_table s \<noteq> []"
  shows "proc_table s' ! 0 = proc_table s ! 0" and "sleep_queue s' = sleep_queue s"
    and "run_queue s' = run_queue s \<or> run_queue s' = run_queue s @ [next_pid s]"
proof -
  have "proc_table s' ! 0 = proc_table s ! 0 \<and> sleep_queue s' = sleep_queue s
      \<and> (run_queue s' = run_queue s \<or> run_queue s' = run_queue s @ [next_pid s])"
  proof (cases "queue_out (proc_allocator s)")
    case None
    with assms(1) show ?thesis by (simp add: kproc_create_def)
  next
    case (Some a)
    obtain entry qa where a: "a = (entry, qa)" by (cases a)
    from Some a have al: "proc_allocator s = entry # qa"
      by (auto simp: queue_out_def split: list.splits)
    show ?thesis
    proof (cases "entry = - 1")
      case True
      with assms(1) Some a show ?thesis by (auto simp: kproc_create_def)
    next
      case False
      define e where "e = nat entry"
      define s2 where "s2 = upd_proc e (\<lambda>p. p\<lparr>stack := Some e, trapframe := Some e\<rparr>)
                            (s\<lparr>proc_allocator := qa\<rparr>)"
      define s3 where "s3 = (upd_proc e (\<lambda>p. p\<lparr>pid := next_pid s2\<rparr>) s2)\<lparr>next_pid := int32 (next_pid s2 + 1)\<rparr>"
      define s4 where "s4 = upd_proc e (\<lambda>p. p\<lparr>state := IDLE, ptype := ty,
                        start_time := timer_get_ticks s3, run_time := 0, cpu_time := 0\<rparr>) s3"
      define s5 where "s5 = upd_proc e (\<lambda>p. p\<lparr>name :=
                        (strncpy (name p) nm (PROC_NAME_LEN c))
                          [PROC_NAME_LEN c - 1 := NUL]\<rparr>) s4"
      define s6 where "s6 = s5\<lparr>proc_stack := (proc_stack s5)[e := (proc_stack s5 ! e)
                        \<lparr>eip := ptr, eflags := EF_DEFAULT_VALUE c OR EF_INTR c,
                         cs := get_cs c, ds := get_ds c, es := get_es c, fs := get_fs c,
                         gs := get_gs c, esp := stack_top_addr c e\<rparr>]\<rparr>"
      from assms(1) Some a False have add: "scheduler_add c (Some e) s6 = Inr s'"
        unfolding kproc_create_def s6_def s5_def s4_def s3_def s2_def e_def
        by (auto simp: Let_def split: sum.splits)
      from al assms(2,3) have e: "e \<noteq> 0" "e < length (proc_table s)"
        by (auto simp: alloc_inv_def e_def)
      from assms(4) have ne: "0 < length (proc_table s)" by simp
      have f6: "proc_table s6 ! 0 = proc_table s ! 0" "run_queue s6 = run_queue s"
        "sleep_queue s6 = sleep_queue s" "pid (proc_table s6 ! e) = next_pid s"
        using e ne by (simp_all add: s6_def s5_def s4_def s3_def s2_def upd_proc_nth)
      note eff = scheduler_add_effect[OF add]
      have "proc_table s' ! 0 = proc_table s ! 0" using e(1) f6(1) by (simp add: eff(1))
      moreover have "sleep_queue s' = sleep_queue s" by (simp add: eff(3) f6(3))
      moreover have "run_queue s' = run_queue s @ [next_pid s]"
        using scheduler_add_run_queue[OF add] f6(2,4) by simp
      ultimately show ?thesis by simp
    qed
  qed
  then show "proc_table s' ! 0 = proc_table s ! 0" and "sleep_queue s' = sleep_queue s"
    and "run_queue s' = run_queue s \<or> run_queue s' = run_queue s @ [next_pid s]"
    by simp_all
qed

lemma kproc_create_idle_inv:
  assumes "kproc_create c ptr nm ty s = Inr (r, s')" "alloc_inv s" "idle_inv s"
    "next_pid s \<noteq> 0"
  shows "idle_inv s'" and "count_list (run_queue s') 0 \<le> count_list (run_queue s) 0"
proof -
  from assms(3) have al: "0 \<notin> set (proc_allocator s)" and ne: "proc_table s \<noteq> []"
    by (simp_all add: idle_inv_def)
  note idle = kproc_create_idle[OF assms(1,2) al ne]
  from kproc_create_effect[OF assms(1)]
  have len: "length (proc_table s') = length (proc_table s)"
    and sub: "set (proc_allocator s') \<subseteq> set (proc_allocator s)" by simp_all
  from idle(3) assms(4) have cnt: "count_list (run_queue s') 0 = count_list (run_queue s) 0"
    by auto
  from len ne have "proc_table s' \<noteq> []" by auto
  with assms(3) idle(1,2) sub cnt al show "idle_inv s'"
    by (auto simp: idle_inv_def)
  from cnt show "count_list (run_queue s') 0 \<le> count_list (run_queue s) 0" by simp
qed

lemma kproc_destroy_idle_inv:
  assumes "kproc_destroy c proc s = Inr (r, s')" "idle_inv s"
    and "\<And>i. proc = Some i \<Longrightarrow> i < length (proc_table s)"
  shows "idle_inv s'" and "count_list (run_queue s') 0 \<le> count_list (run_queue s) 0"
proof -
  have "idle_inv s' \<and> count_list (run_queue s') 0 \<le> count_list (run_queue s) 0"
  proof (cases proc)
    case None
    with assms show ?thesis by (simp add: kproc_destroy_def)
  next
    case (Some i)
    show ?thesis
    proof (cases "state (proc_table s ! i) = NONE \<or> pid (proc_table s ! i) = 0")
      case True
      with Some assms show ?thesis by (simp add: kproc_destroy_def)
    next
      case False
      with assms(1) Some obtain s1 st where rm: "scheduler_remove c (Some i) s = Inr s1"
        and s': "s' = (upd_proc i (\<lambda>p. proc_zero c) s1)\<lparr>proc_stack := st,
                         proc_allocator := proc_allocator s1 @ [int i]\<rparr>
                 \<or> s' = (upd_proc i (\<lambda>p. proc_zero c) s1)\<lparr>proc_stack := st\<rparr>"
        by (auto simp: kproc_destroy_def Let_def queue_in_def proc_to_entry_def
            split: sum.splits option.splits if_splits)
      from False assms(2) have ne0: "pid (proc_table s ! i) \<noteq> pid (proc_table s ! 0)"
        by (simp add: idle_inv_def)
      have i0: "i \<noteq> 0"
      proof
        assume "i = 0"
        with ne0 show False by simp
      qed
      from assms(2) have q: "0 \<notin> set (sleep_queue s)" by (simp add: idle_inv_def)
      from False have "pid (proc_table s ! i) \<noteq> 0" by simp
      note k = idle_kept_idle_inv[OF assms(2) scheduler_remove_idle_kept[OF rm this q]]
      from k(1) have ne: "0 < length (proc_table s1)" by (simp add: idle_inv_def)
      have t0: "proc_table (upd_proc i (\<lambda>p. proc_zero c) s1) ! 0 = proc_table s1 ! 0"
        using i0 ne by (simp add: upd_proc_nth)
      have "idle_inv s'"
        using s' k(1) t0 i0 ne unfolding idle_inv_def by auto
      moreover have "run_queue s' = run_queue s1" using s' by auto
      ultimately show ?thesis using k(2) by simp
    qed
  qed
  then show "idle_inv s'" and "count_list (run_queue s') 0 \<le> count_list (run_queue s) 0"
    by simp_all
qed

lemma ksyscall_irq_handler_idle_inv:
  assumes "ksyscall_irq_handler c s = Inr s'" "idle_inv s" "\<not> idle_running s"
  shows "idle_inv s' \<and> count_list (run_queue s') 0 \<le> count_list (run_queue s) 0"
proof -
  from assms(1) obtain i k where i: "active_proc s = Some i"
    and k: "trapframe (proc_table s ! i) = Some k"
    by (auto simp: ksyscall_irq_handler_def split: option.splits)
  from assms(2) have q: "0 \<notin> set (sleep_queue s)" by (simp add: idle_inv_def)
  define tf where "tf = proc_stack s ! k"
  consider
      (time) "write_eax (ksyscall_sys_get_time s) s = Inr s'"
    | (name) "write_eax (fst (ksyscall_sys_get_name c (ebx tf) s))
                (snd (ksyscall_sys_get_name c (ebx tf) s)) = Inr s'"
    | (exit) rc s1 where "ksyscall_proc_exit c s = Inr (rc, s1)" "write_eax rc s1 = Inr s'"
    | (pid) "write_eax (ksyscall_proc_get_pid s) s = Inr s'"
    | (pname) "write_eax (fst (ksyscall_proc_get_name c (ebx tf) s))
                (snd (ksyscall_proc_get_name c (ebx tf) s)) = Inr s'"
    using assms(1) i k unfolding ksyscall_irq_handler_def tf_def
    by (auto simp: Let_def split: if_splits sum.splits prod.splits)
  then show ?thesis
  proof cases
    case time
    note f = write_eax_frame[OF this]
    from idle_kept_idle_inv[OF assms(2) idle_kept_frame[OF f(1,4,5,6) q]] show ?thesis by simp
  next
    case name
    let ?s1 = "snd (ksyscall_sys_get_name c (ebx tf) s)"
    have g: "proc_table ?s1 = proc_table s" "proc_allocator ?s1 = proc_allocator s"
      "run_queue ?s1 = run_queue s" "sleep_queue ?s1 = sleep_queue s"
      by (simp_all add: ksyscall_sys_get_name_def write_mem_def)
    note f = write_eax_frame[OF name]
    have "idle_kept s s'" by (rule idle_kept_frame) (simp_all add: f g q)
    from idle_kept_idle_inv[OF assms(2) this] show ?thesis by simp
  next
    case exit
    let ?s0 = "upd_proc i (\<lambda>p. p\<lparr>state := NONE\<rparr>) s"
    from exit(1) i have run: "scheduler_run c ?s0 = Inr s1"
      by (auto simp: ksyscall_proc_exit_def split: sum.splits)
    from assms(3) i have "pid (proc_table s ! i) \<noteq> 0" by (simp add: idle_running_def)
    with assms(2) have ne0: "pid (proc_table s ! i) \<noteq> pid (proc_table s ! 0)"
      by (simp add: idle_inv_def)
    have i0: "i \<noteq> 0"
    proof
      assume "i = 0"
      with ne0 show False by simp
    qed
    from assms(2) have ne: "0 < length (proc_table s)" by (simp add: idle_inv_def)
    have "proc_table ?s0 ! 0 = proc_table s ! 0" using i0 ne by (simp add: upd_proc_nth)
    with assms(2) have inv0: "idle_inv ?s0" by (simp add: idle_inv_def)
    have q0: "0 \<notin> set (sleep_queue ?s0)" using q by simp
    note k1 = idle_kept_idle_inv[OF inv0 scheduler_run_idle_kept[OF run q0]]
    note f = write_eax_frame[OF exit(2)]
    from k1(1) have q1: "0 \<notin> set (sleep_queue s1)" by (simp add: idle_inv_def)
    from idle_kept_idle_inv[OF k1(1) idle_kept_frame[OF f(1,4,5,6) q1]] k1(2)
    show ?thesis by simp
  next
    case pid
    note f = write_eax_frame[OF this]
    from idle_kept_idle_inv[OF assms(2) idle_kept_frame[OF f(1,4,5,6) q]] show ?thesis by simp
  next
    case pname
    let ?s1 = "snd (ksyscall_proc_get_name c (ebx tf) s)"
    have g: "proc_table ?s1 = proc_table s" "proc_allocator ?s1 = proc_allocator s"
      "run_queue ?s1 = run_queue s" "sleep_queue ?s1 = sleep_queue s"
      by (simp_all add: ksyscall_proc_get_name_def write_mem_def split: option.splits)
    note f = write_eax_frame[OF pname]
    have "idle_kept s s'" by (rule idle_kept_frame) (simp_all add: f g q)
    from idle_kept_idle_inv[OF assms(2) this] show ?thesis by simp
  qed
qed

text \<open>No call adds pid 0 to the run queue, as long as the pid counter is not 0.\<close>

lemma kstep_idle_inv:
  assumes "kstep c call s = Inr s'" "can_occur s call" "idle_inv s" "alloc_inv s"
    "active_inv s" "next_pid s \<noteq> 0"
  shows "idle_inv s' \<and> count_list (run_queue s') 0 \<le> count_list (run_queue s) 0"
proof (cases call)
  case (K_create ptr nm ty)
  with assms(1) obtain r where "kproc_create c ptr nm ty s = Inr (r, s')"
    by (auto simp: kstep_def split: sum.splits)
  from kproc_create_idle_inv[OF this assms(4,3,6)] show ?thesis by simp
next
  case (K_destroy p)
  with assms(1) obtain r where "kproc_destroy c (pid_to_proc s p) s = Inr (r, s')"
    by (auto simp: kstep_def split: sum.splits)
  from kproc_destroy_idle_inv[OF this assms(3)] pid_to_proc_bound show ?thesis by blast
next
  case K_run
  with assms(1) have "scheduler_run c s = Inr s'" by (simp add: kstep_def)
  moreover from assms(3) have "0 \<notin> set (sleep_queue s)" by (simp add: idle_inv_def)
  ultimately show ?thesis
    using idle_kept_idle_inv[OF assms(3) scheduler_run_idle_kept] by blast
next
  case K_tick
  with assms(1) have s': "s' = timer_tick s" by (simp add: kstep_def)
  from assms(3) have q: "0 \<notin> set (sleep_queue s)" by (simp add: idle_inv_def)
  have "same_procs s s'"
  proof (cases "active_proc s")
    case None
    then show ?thesis by (simp add: s' timer_tick_def scheduler_timer_def same_procs_def)
  next
    case (Some i)
    have "same_procs (s\<lparr>timer_ticks := int32 (timer_ticks s + 1)\<rparr>)
        (upd_proc i (\<lambda>p. p\<lparr>run_time := int32 (run_time p + 1),
                                       cpu_time := int32 (cpu_time p + 1)\<rparr>)
           (s\<lparr>timer_ticks := int32 (timer_ticks s + 1)\<rparr>))"
      by (rule same_procs_upd_proc) simp_all
    with Some show ?thesis by (simp add: s' timer_tick_def scheduler_timer_def same_procs_def)
  qed
  moreover have "proc_allocator s' = proc_allocator s" "run_queue s' = run_queue s"
    "sleep_queue s' = sleep_queue s"
    by (simp_all add: s' timer_tick_def scheduler_timer_def split: option.splits)
  ultimately have "idle_kept s s'" using q by (simp add: idle_kept_def)
  from idle_kept_idle_inv[OF assms(3) this] show ?thesis by simp
next
  case (K_syscall a b)
  with assms(1) have h: "ksyscall_irq_handler c (load_regs a b s) = Inr s'"
    by (simp add: kstep_def)
  from assms(2) K_syscall have ni: "\<not> idle_running (load_regs a b s)"
    by (simp add: can_occur_def idle_running_def load_regs_frame split: option.splits)
  from assms(3) have q: "0 \<notin> set (sleep_queue s)" by (simp add: idle_inv_def)
  have "idle_kept s (load_regs a b s)"
    by (rule idle_kept_frame) (simp_all add: load_regs_frame q)
  note k = idle_kept_idle_inv[OF assms(3) this]
  from ksyscall_irq_handler_idle_inv[OF h k(1) ni] k(2) show ?thesis by simp
next
  case (K_sleep secs)
  with assms(1) obtain r where h: "ksyscall_proc_sleep c secs s = Inr (r, s')"
    by (auto simp: kstep_def split: sum.splits)
  from assms(3) have q: "0 \<notin> set (sleep_queue s)" by (simp add: idle_inv_def)
  have "idle_kept s s'"
  proof (cases "active_proc s")
    case None
    with h q show ?thesis by (simp add: ksyscall_proc_sleep_def idle_kept_refl)
  next
    case (Some i)
    with h have sl: "scheduler_sleep c (Some i) (int32 (secs * 100)) s = Inr s'"
      by (auto simp: ksyscall_proc_sleep_def split: sum.splits)
    from assms(2) K_sleep Some have p: "pid (proc_table s ! i) \<noteq> 0"
      by (simp add: can_occur_def idle_running_def)
    from assms(5) Some have i: "i < length (proc_table s)" unfolding active_inv_def by blast
    from scheduler_sleep_idle_kept[OF sl p q i] show ?thesis .
  qed
  from idle_kept_idle_inv[OF assms(3) this] show ?thesis by simp
qed

text \<open>The pid counter moves only in \<^verbatim>\<open>kproc_create\<close>, by one.\<close>

lemma kstep_next_pid:
  assumes "kstep c call s = Inr s'"
  shows "next_pid s' = next_pid s \<or> (creation call = 1 \<and> next_pid s' = int32 (next_pid s + 1))"
proof (cases call)
  case (K_create ptr nm ty)
  with assms obtain r where "kproc_create c ptr nm ty s = Inr (r, s')"
    by (auto simp: kstep_def split: sum.splits)
  from kproc_create_effect[OF this] K_create show ?thesis by auto
next
  case (K_destroy p)
  with assms obtain r where d: "kproc_destroy c (pid_to_proc s p) s = Inr (r, s')"
    by (auto simp: kstep_def split: sum.splits)
  have "next_pid s' = next_pid s"
  proof (cases "pid_to_proc s p")
    case None
    with d show ?thesis by (simp add: kproc_destroy_def)
  next
    case (Some i)
    show ?thesis
    proof (cases "state (proc_table s ! i) = NONE \<or> pid (proc_table s ! i) = 0")
      case True
      with Some d show ?thesis by (simp add: kproc_destroy_def)
    next
      case False
      with d Some obtain s1 where rm: "scheduler_remove c (Some i) s = Inr s1"
        and s': "next_pid s' = next_pid s1"
        by (auto simp: kproc_destroy_def Let_def split: sum.splits option.splits)
      from scheduler_remove_effect(5)[OF rm] s' show ?thesis by simp
    qed
  qed
  then show ?thesis by simp
next
  case K_run
  with assms have "scheduler_run c s = Inr s'" by (simp add: kstep_def)
  from scheduler_run_same_alloc[OF this] show ?thesis by (simp add: same_alloc_def)
next
  case K_tick
  with assms have "s' = timer_tick s" by (simp add: kstep_def)
  then show ?thesis
    by (simp add: timer_tick_def scheduler_timer_def split: option.splits)
next
  case (K_syscall a b)
  with assms have h: "ksyscall_irq_handler c (load_regs a b s) = Inr s'"
    by (simp add: kstep_def)
  from ksyscall_irq_handler_same_alloc[OF h] show ?thesis
    by (simp add: same_alloc_def load_regs_frame)
next
  case (K_sleep secs)
  with assms obtain r where h: "ksyscall_proc_sleep c secs s = Inr (r, s')"
    by (auto simp: kstep_def split: sum.splits)
  have "next_pid s' = next_pid s"
  proof (cases "active_proc s")
    case None
    with h show ?thesis by (simp add: ksyscall_proc_sleep_def)
  next
    case (Some i)
    with h have "scheduler_sleep c (Some i) (int32 (secs * 100)) s = Inr s'"
      by (auto simp: ksyscall_proc_sleep_def split: sum.splits)
    from scheduler_sleep_same_alloc[OF this] show ?thesis by (simp add: same_alloc_def)
  qed
  then show ?thesis by simp
qed

text \<open>
  As long as \<^verbatim>\<open>kproc_create\<close> has been called fewer than \<open>INT_MAX\<close> times, the pid
  counter has not wrapped around: it lies between 1 and one more than the number of
  calls, and the idle process is as \<open>idle_inv\<close> says.
\<close>

lemma reachable_by_idle_inv:
  assumes "reachable_by c n s" "int n < INT_MAX"
  shows "idle_inv s \<and> 1 \<le> next_pid s \<and> next_pid s \<le> 1 + int n"
  using assms
proof (induction rule: reachable_by.induct)
  case (boot um s)
  from kernel_boot_result[OF boot(1)] show ?case by (simp add: idle_inv_def)
next
  case (boot_late um s)
  from kproc_init_result[OF boot_late(1)] show ?case
    by (simp add: idle_inv_def boot_state_def scheduler_init_def queue_init_def)
next
  case (step n s call s')
  from step.prems have n: "int n < INT_MAX" by simp
  from step.IH[OF n] have inv: "idle_inv s" and lo: "1 \<le> next_pid s"
    and hi: "next_pid s \<le> 1 + int n" by simp_all
  from lo have nz: "next_pid s \<noteq> 0" by simp
  from kstep_idle_inv[OF step.hyps(3,2) inv reachable_by_alloc_inv[OF step.hyps(1)]
      reachable_by_active_inv[OF step.hyps(1)] nz]
  have inv': "idle_inv s'" by simp
  from kstep_next_pid[OF step.hyps(3)]
  have "1 \<le> next_pid s' \<and> next_pid s' \<le> 1 + int (n + creation call)"
  proof
    assume "next_pid s' = next_pid s"
    with lo hi show ?thesis by simp
  next
    assume a: "creation call = 1 \<and> next_pid s' = int32 (next_pid s + 1)"
    with step.prems have "next_pid s + 1 \<le> INT_MAX" using hi by simp
    with lo have "int32 (next_pid s + 1) = next_pid s + 1" by (intro int32_id) simp_all
    with a lo hi show ?thesis by simp
  qed
  with inv' show ?case by simp
qed

section \<open>Strings\<close>

lemma c_str_no_NUL: "NUL \<notin> set (c_str bs)"
  unfolding c_str_def by (induction bs) auto

lemma c_str_append_NUL: "NUL \<notin> set xs \<Longrightarrow> c_str (xs @ NUL # ys) = xs"
  unfolding c_str_def by (induction xs) auto

text \<open>A source string that fits with its terminator arrives as the same string.\<close>

lemma c_str_strncpy:
  assumes "length (c_str src) < n"
  shows "c_str (strncpy dest src n) = c_str src"
proof -
  from assms obtain m where m: "n - length (c_str src) = Suc m"
    by (cases "n - length (c_str src)") auto
  have "strncpy dest src n = c_str src @ NUL # (replicate m NUL @ drop n dest)"
    using assms by (simp add: strncpy_def m)
  then show ?thesis by (simp add: c_str_append_NUL c_str_no_NUL)
qed

lemma read_mem_write_mem: "read_mem (write_mem a bs s) a = bs"
  by (simp add: read_mem_def write_mem_def)

section \<open>The example states\<close>

lemma exec_reachable_by:
  "exec c ks s = Inr s' \<Longrightarrow> occurs c ks s \<Longrightarrow> reachable_by c n s \<Longrightarrow>
   reachable_by c (n + creations ks) s'"
proof (induction ks arbitrary: s n)
  case Nil
  then show ?case by (simp add: creations_def)
next
  case (Cons k ks)
  from Cons.prems(1) obtain s1 where k: "kstep c k s = Inr s1" and r: "exec c ks s1 = Inr s'"
    by (auto split: sum.splits)
  from Cons.prems(2) k have o: "can_occur s k" "occurs c ks s1" by simp_all
  from Cons.IH[OF r o(2) reachable_by.step[OF Cons.prems(3) o(1) k]]
  show ?case by (simp add: creations_def add.assoc)
qed

lemma exec_reachable:
  "exec c ks s = Inr s' \<Longrightarrow> occurs c ks s \<Longrightarrow> reachable c s \<Longrightarrow> reachable c s'"
  unfolding reachable_def using exec_reachable_by by blast

text \<open>The states of the example are reached by executions.\<close>

lemma st_boot_reached: "kernel_boot example_config [] = Inr st_boot"
  by code_simp

lemma st_ab_reached:
  "exec example_config
     [K_create 20480 ''A'' PROC_TYPE_USER, K_create 24576 ''B'' PROC_TYPE_USER] st_boot
   = Inr st_ab"
  "occurs example_config
     [K_create 20480 ''A'' PROC_TYPE_USER, K_create 24576 ''B'' PROC_TYPE_USER] st_boot"
  by code_simp+

lemma st_a_running_reached:
  "exec example_config [K_run, K_tick, K_run] st_ab = Inr st_a_running"
  "occurs example_config [K_run, K_tick, K_run] st_ab"
  by code_simp+

lemma st_sleepers_reached:
  "exec example_config ([K_sleep 1, K_run, K_sleep 1, K_run] @ replicate 100 K_tick) st_a_running
   = Inr st_sleepers"
  "occurs example_config ([K_sleep 1, K_run, K_sleep 1, K_run] @ replicate 100 K_tick)
     st_a_running"
  by code_simp+

lemma st_sleeper_destroyed_reached:
  "exec example_config [K_destroy 1] st_sleepers = Inr st_sleeper_destroyed"
  "occurs example_config [K_destroy 1] st_sleepers"
  by code_simp+

lemma st_boot_reachable_by: "reachable_by example_config 0 st_boot"
  by (rule reachable_by.boot[OF st_boot_reached])

lemma st_ab_reachable_by: "reachable_by example_config 2 st_ab"
  using exec_reachable_by[OF st_ab_reached st_boot_reachable_by]
  by (simp add: creations_def numeral_2_eq_2 sum_list_replicate)

lemma st_a_running_reachable_by: "reachable_by example_config 2 st_a_running"
  using exec_reachable_by[OF st_a_running_reached st_ab_reachable_by]
  by (simp add: creations_def numeral_2_eq_2 sum_list_replicate)

lemma st_sleepers_reachable_by: "reachable_by example_config 2 st_sleepers"
  using exec_reachable_by[OF st_sleepers_reached st_a_running_reachable_by]
  by (simp add: creations_def numeral_2_eq_2 sum_list_replicate)

lemma st_sleeper_destroyed_reachable_by: "reachable_by example_config 2 st_sleeper_destroyed"
  using exec_reachable_by[OF st_sleeper_destroyed_reached st_sleepers_reachable_by]
  by (simp add: creations_def numeral_2_eq_2 sum_list_replicate)

lemma st_boot_reachable: "reachable example_config st_boot"
  unfolding reachable_def using st_boot_reachable_by by blast

lemma st_ab_reachable: "reachable example_config st_ab"
  unfolding reachable_def using st_ab_reachable_by by blast

lemma st_a_running_reachable: "reachable example_config st_a_running"
  unfolding reachable_def using st_a_running_reachable_by by blast

lemma st_sleepers_reachable: "reachable example_config st_sleepers"
  unfolding reachable_def using st_sleepers_reachable_by by blast

lemma st_sleeper_destroyed_reachable: "reachable example_config st_sleeper_destroyed"
  unfolding reachable_def using st_sleeper_destroyed_reachable_by by blast

text \<open>
  The wrap-around of \<^verbatim>\<open>int\<close> at work. With the pid counter at \<open>INT_MAX\<close>,
  \<^verbatim>\<open>kproc_create\<close> hands out that pid and the counter steps to the least \<^verbatim>\<open>int\<close>. A sleep
  request for 21474837 seconds made at tick 1 stores a wake deadline that lies in the
  past: the product with 100 wraps around to a negative number of ticks.
\<close>

lemma pid_counter_wraps:
  "(case kproc_create example_config 28672 ''C'' PROC_TYPE_USER (st_ab\<lparr>next_pid := INT_MAX\<rparr>) of
      Inl e \<Rightarrow> False
    | Inr (r, s') \<Rightarrow> r = INT_MAX \<and> next_pid s' = - 2147483648)"
  by code_simp

lemma sleep_request_wraps:
  "timer_get_ticks st_a_running = 1
   \<and> (case ksyscall_proc_sleep example_config 21474837 st_a_running of
         Inl e \<Rightarrow> False
       | Inr (r, s') \<Rightarrow> r = 0 \<and> sleep_time (proc_table s' ! 1) = - 2147483595)"
  by code_simp

section \<open>The claims\<close>

text \<open>
  The calls of \<^verbatim>\<open>scheduler_run\<close> that return leave exactly one ACTIVE process (lemma
  \<open>scheduler_run_exactly_one\<close>, from the invariant of \<open>reachable_active_inv\<close>). The
  invariant rests on the callers of \<^verbatim>\<open>scheduler_remove\<close>: \<^verbatim>\<open>kproc_destroy\<close> and
  \<^verbatim>\<open>scheduler_sleep\<close> take the process out of the state ACTIVE themselves, while
  \<^verbatim>\<open>scheduler_remove\<close> only clears the active reference. Called by itself on the
  running A, it is followed by a \<^verbatim>\<open>scheduler_run\<close> that returns with A and B ACTIVE.
\<close>

lemma remove_alone_leaves_two_active:
  "(case scheduler_remove example_config (Some 1) st_a_running of
      Inl e \<Rightarrow> False
    | Inr s1 \<Rightarrow>
        (case scheduler_run example_config s1 of
           Inl e \<Rightarrow> False
         | Inr s2 \<Rightarrow>
             active_proc s2 = Some 2 \<and> state (proc_table s2 ! 1) = ACTIVE
             \<and> state (proc_table s2 ! 2) = ACTIVE))"
  by code_simp

text \<open>
  C1. At the end of every call of \<^verbatim>\<open>scheduler_run\<close> from a reachable state in which the
  idle process is live, exactly one process of the table has state ACTIVE and the
  active reference points to it. The code does not reach the end of every such call.
  The state below is reached by the boot, the creation of A and B, their sleep
  requests, a hundred ticks and the destruction of the sleeping A. In it the idle
  process is live, it is the running process, and \<^verbatim>\<open>scheduler_run\<close> halts the kernel:
  the sweep takes from the sleep queue the pid of A, which \<^verbatim>\<open>kproc_destroy\<close> has left
  there (see C4), \<^verbatim>\<open>pid_to_proc\<close> finds no process for it, and the call ends in
  \<^verbatim>\<open>kernel_panic\<close> with no process scheduled.
\<close>

theorem scheduler_run_halts_with_idle_live:
  "reachable example_config st_sleeper_destroyed
   \<and> pid_to_proc st_sleeper_destroyed 0 = Some 0
   \<and> active_proc st_sleeper_destroyed = Some 0
   \<and> state (proc_table st_sleeper_destroyed ! 0) = ACTIVE
   \<and> sleep_queue st_sleeper_destroyed = [1, 2]
   \<and> pid_to_proc st_sleeper_destroyed 1 = None
   \<and> scheduler_run example_config st_sleeper_destroyed =
       Inl (Panic ''Invalid process in sleep queue'')"
proof -
  have "pid_to_proc st_sleeper_destroyed 0 = Some 0
   \<and> active_proc st_sleeper_destroyed = Some 0
   \<and> state (proc_table st_sleeper_destroyed ! 0) = ACTIVE
   \<and> sleep_queue st_sleeper_destroyed = [1, 2]
   \<and> pid_to_proc st_sleeper_destroyed 1 = None
   \<and> scheduler_run example_config st_sleeper_destroyed =
       Inl (Panic ''Invalid process in sleep queue'')"
    by code_simp
  with st_sleeper_destroyed_reachable show ?thesis by simp
qed

text \<open>
  C2. For a process whose back-reference names a queue that holds its pid,
  \<^verbatim>\<open>scheduler_remove\<close> deletes the pid and keeps the other entries in their order.
  The code deletes the pid but does not keep the order: the loop reads its bound from
  the queue again at every iteration, so it stops one iteration early once the pid is
  out (lemma \<open>remove_loop_once\<close>). Here A (pid 1) is removed from the run queue
  \<open>[0, 1, 2]\<close>, as \<^verbatim>\<open>kproc_destroy\<close> of A does, and the queue is left as \<open>[2, 0]\<close>.
\<close>

theorem remove_reorders_run_queue:
  "run_queue st_ab = [0, 1, 2]
   \<and> pid (proc_table st_ab ! 1) = 1
   \<and> scheduler_queue (proc_table st_ab ! 1) = Some RUN_QUEUE
   \<and> scheduler_remove example_config (Some 1) st_ab =
       Inr (st_ab\<lparr>proc_table :=
                   (proc_table st_ab)[1 := example_proc 1 IDLE PROC_TYPE_USER ''A'' 1 None],
                 run_queue := [2, 0]\<rparr>)"
  by code_simp

text \<open>
  C3. During the sweep of one \<^verbatim>\<open>scheduler_run\<close> call, every pid that is in the sleep
  queue when the sweep starts is dequeued and evaluated once. The code evaluates fewer:
  the bound of the loop is the current size of the sleep queue, which drops with every
  process woken. Here A (pid 1) and B (pid 2) sleep, both deadlines (tick 101) are
  reached, and the call wakes A only: B is never looked at and stays SLEEPING in the
  sleep queue.
\<close>

theorem sweep_skips_due_sleeper:
  "sleep_queue st_sleepers = [1, 2]
   \<and> timer_get_ticks st_sleepers = 101
   \<and> sleep_time (proc_table st_sleepers ! 1) = 101
   \<and> sleep_time (proc_table st_sleepers ! 2) = 101
   \<and> scheduler_run example_config st_sleepers = Inr st_a_woken
   \<and> sleep_queue st_a_woken = [2]
   \<and> state (proc_table st_a_woken ! 2) = SLEEPING"
  by code_simp

text \<open>
  C4. Each pid is in at most one of the two queues, the back-reference of its process
  names exactly that queue (none when it is in neither), and \<^verbatim>\<open>scheduler_remove\<close> takes
  a process out of whichever queue holds it. In the code \<^verbatim>\<open>scheduler_sleep\<close> puts the pid
  into the sleep queue without setting the back-reference, so for the sleeping A
  \<^verbatim>\<open>scheduler_remove\<close> changes nothing, and after \<^verbatim>\<open>kproc_destroy\<close> of A the next
  \<^verbatim>\<open>scheduler_run\<close> halts the kernel on the pid left behind. Also, the back-reference of
  the running A still names the run queue, which no longer holds its pid.
\<close>

theorem sleeper_stays_in_sleep_queue:
  "pid (proc_table st_sleepers ! 1) = 1
   \<and> sleep_queue st_sleepers = [1, 2]
   \<and> scheduler_queue (proc_table st_sleepers ! 1) = None
   \<and> scheduler_remove example_config (Some 1) st_sleepers = Inr st_sleepers
   \<and> exec example_config [K_destroy 1, K_run] st_sleepers =
       Inl (Panic ''Invalid process in sleep queue'')
   \<and> active_proc st_a_running = Some 1
   \<and> scheduler_queue (proc_table st_a_running ! 1) = Some RUN_QUEUE
   \<and> run_queue st_a_running = [2]
   \<and> sleep_queue st_a_running = []"
  by code_simp

text \<open>
  C5, the counterexample. The pid of the idle process is never put into the run
  queue, not even at its creation: \<^verbatim>\<open>kproc_init\<close>, which creates the idle process on
  the zero-initialised kernel, leaves pid 0 in the run queue.
\<close>

theorem idle_enqueued_at_creation:
  "kproc_init example_config (boot_state example_config []) = Inr st_boot
   \<and> pid (proc_table st_boot ! 0) = 0
   \<and> 0 \<in> set (run_queue st_boot)"
  by code_simp

text \<open>
  C5, as amended. \<^verbatim>\<open>kproc_init\<close> creates the idle process with pid 0 and, as for every
  process, \<^verbatim>\<open>kproc_create\<close> puts its pid into the run queue. After that, in every
  state of an execution that has called \<^verbatim>\<open>kproc_create\<close> fewer than \<open>INT_MAX\<close> times
  (the pid counter is an \<^verbatim>\<open>int\<close> and wraps around after that many):
  \<^item> the idle process is live, in slot 0 of the table;
  \<^item> no \<^verbatim>\<open>kproc_create\<close> returns pid 0;
  \<^item> \<^verbatim>\<open>kproc_destroy\<close> of a process with pid 0 returns -1 and changes nothing;
  \<^item> pid 0 is not in the sleep queue and is in the run queue at most once, and no
    call of the kernel adds it to the run queue: the number of its entries there
    never grows. (Inside \<^verbatim>\<open>scheduler_remove\<close> the rotation takes every entry out and
    puts it back; the count is taken between calls.)
\<close>

theorem idle_process_lifecycle:
  "(kproc_init c (boot_state c um) = Inr s0 \<longrightarrow>
      run_queue s0 = [0] \<and> pid_to_proc s0 0 = Some 0 \<and> next_pid s0 = 1)
   \<and> (reachable_by c n s \<and> int n < INT_MAX \<longrightarrow>
        pid_to_proc s 0 = Some 0
      \<and> (\<forall>ptr nm ty r s'. kproc_create c ptr nm ty s = Inr (r, s') \<longrightarrow> r \<noteq> 0)
      \<and> (\<forall>i. pid (proc_table s ! i) = 0 \<longrightarrow> kproc_destroy c (Some i) s = Inr (- 1, s))
      \<and> 0 \<notin> set (sleep_queue s)
      \<and> count_list (run_queue s) 0 \<le> 1
      \<and> (\<forall>call s'. can_occur s call \<and> kstep c call s = Inr s' \<longrightarrow>
             count_list (run_queue s') 0 \<le> count_list (run_queue s) 0))"
proof (intro conjI impI allI)
  assume "kproc_init c (boot_state c um) = Inr s0"
  from kproc_init_result(1,2,3)[OF this]
  show "run_queue s0 = [0]" "pid_to_proc s0 0 = Some 0" "next_pid s0 = 1"
    by (simp_all add: boot_state_def)
next
  assume r: "reachable_by c n s \<and> int n < INT_MAX"
  from reachable_by_idle_inv[of c n s] r have inv: "idle_inv s" by simp
  then obtain x xs where "proc_table s = x # xs" "pid x = 0" "state x \<noteq> NONE"
    by (cases "proc_table s") (auto simp: idle_inv_def)
  then show "pid_to_proc s 0 = Some 0" by (simp add: pid_to_proc_def)
next
  fix ptr nm ty r s'
  assume r: "reachable_by c n s \<and> int n < INT_MAX"
    and cr: "kproc_create c ptr nm ty s = Inr (r, s')"
  from reachable_by_idle_inv[of c n s] r have lo: "1 \<le> next_pid s" by simp
  from r reachable_by_alloc_inv have "alloc_inv s" by blast
  with kproc_create_effect[OF cr] have "r = - 1 \<or> r = next_pid s" by blast
  with lo show "r \<noteq> 0" by auto
next
  fix i assume "pid (proc_table s ! i) = 0"
  then show "kproc_destroy c (Some i) s = Inr (- 1, s)" by (simp add: kproc_destroy_def)
next
  assume r: "reachable_by c n s \<and> int n < INT_MAX"
  from reachable_by_idle_inv[of c n s] r have "idle_inv s" by simp
  then show "0 \<notin> set (sleep_queue s)" by (simp add: idle_inv_def)
next
  assume r: "reachable_by c n s \<and> int n < INT_MAX"
  from reachable_by_idle_inv[of c n s] r have "idle_inv s" by simp
  then show "count_list (run_queue s) 0 \<le> 1" by (simp add: idle_inv_def)
next
  fix call s'
  assume r: "reachable_by c n s \<and> int n < INT_MAX"
    and k: "can_occur s call \<and> kstep c call s = Inr s'"
  from reachable_by_idle_inv[of c n s] r have inv: "idle_inv s" and nz: "next_pid s \<noteq> 0"
    by simp_all
  from r have rb: "reachable_by c n s" by simp
  from k have k1: "kstep c call s = Inr s'" and k2: "can_occur s call" by simp_all
  from kstep_idle_inv[OF k1 k2 inv reachable_by_alloc_inv[OF rb] reachable_by_active_inv[OF rb] nz]
  show "count_list (run_queue s') 0 \<le> count_list (run_queue s) 0" by simp
qed

theorem idle_process_lifecycle_witness:
  "kproc_init example_config (boot_state example_config []) = Inr st_boot
   \<and> run_queue st_boot = [0] \<and> pid_to_proc st_boot 0 = Some 0 \<and> next_pid st_boot = 1
   \<and> reachable_by example_config 2 st_ab \<and> int 2 < INT_MAX
   \<and> pid_to_proc st_ab 0 = Some 0
   \<and> (\<exists>s'. kproc_create example_config 28672 ''C'' PROC_TYPE_USER st_ab = Inr (3, s'))
   \<and> (3 :: int) \<noteq> 0
   \<and> pid (proc_table st_ab ! 0) = 0
   \<and> kproc_destroy example_config (Some 0) st_ab = Inr (- 1, st_ab)
   \<and> 0 \<notin> set (sleep_queue st_ab)
   \<and> count_list (run_queue st_ab) 0 \<le> 1
   \<and> can_occur st_ab K_run
   \<and> kstep example_config K_run st_ab = Inr st_idle_running
   \<and> count_list (run_queue st_idle_running) 0 \<le> count_list (run_queue st_ab) 0"
proof -
  note inst = idle_process_lifecycle[where c = example_config and um = "[]" and ?s0.0 = st_boot
      and s = st_ab and n = 2]
  have cr: "kproc_create example_config 28672 ''C'' PROC_TYPE_USER st_ab =
      Inr (3, snd (projr (kproc_create example_config 28672 ''C'' PROC_TYPE_USER st_ab)))"
    by code_simp
  have init: "kproc_init example_config (boot_state example_config []) = Inr st_boot"
    by code_simp
  have n: "int 2 < INT_MAX" by (simp add: INT_MAX_def)
  have idle: "pid (proc_table st_ab ! 0) = 0" by code_simp
  have run: "can_occur st_ab K_run" "kstep example_config K_run st_ab = Inr st_idle_running"
    by code_simp+
  note rb = st_ab_reachable_by
  from inst init have "run_queue st_boot = [0] \<and> pid_to_proc st_boot 0 = Some 0
      \<and> next_pid st_boot = 1" by blast
  moreover from inst rb n have "pid_to_proc st_ab 0 = Some 0" by blast
  moreover from inst rb n idle
  have "kproc_destroy example_config (Some 0) st_ab = Inr (- 1, st_ab)" by blast
  moreover from inst rb n
  have "0 \<notin> set (sleep_queue st_ab) \<and> count_list (run_queue st_ab) 0 \<le> 1" by blast
  moreover from inst rb n run
  have "count_list (run_queue st_idle_running) 0 \<le> count_list (run_queue st_ab) 0" by blast
  moreover from inst rb n cr have "(3 :: int) \<noteq> 0" by blast
  ultimately show ?thesis using init rb n cr idle run by blast
qed

text \<open>A syscall identifier without a branch in the dispatcher halts the kernel.\<close>

lemma undispatched_identifier_is_fatal:
  assumes "active_proc s = Some i" "trapframe (proc_table s ! i) = Some k"
    and "eax (proc_stack s ! k) \<notin> {SYSCALL_SYS_GET_TIME c, SYSCALL_SYS_GET_NAME c,
           SYSCALL_PROC_EXIT c, SYSCALL_PROC_GET_PID c, SYSCALL_PROC_GET_NAME c}"
  shows "ksyscall_irq_handler c s = Inl (Panic ''Invalid system call'')"
  using assms by (simp add: ksyscall_irq_handler_def Let_def)

text \<open>
  C6. Each of GET_TIME, GET_NAME, PROC_EXIT, PROC_GET_PID, PROC_GET_NAME, SLEEP and the
  I/O operations READ, WRITE and FLUSH is reached through the dispatcher, which calls
  the handler and writes its result into the saved EAX; only other identifiers are
  fatal. The dispatcher has branches for the first five only. With the identifier of
  SLEEP or of an I/O operation in EAX (identifiers that differ from the five), the
  running process A halts the kernel.
\<close>

theorem sleep_and_io_not_dispatched:
  "kstep example_config (K_syscall (SYSCALL_PROC_SLEEP example_config) 1) st_a_running =
     Inl (Panic ''Invalid system call'')
   \<and> kstep example_config (K_syscall (SYSCALL_IO_READ example_config) 0) st_a_running =
     Inl (Panic ''Invalid system call'')
   \<and> kstep example_config (K_syscall (SYSCALL_IO_WRITE example_config) 0) st_a_running =
     Inl (Panic ''Invalid system call'')
   \<and> kstep example_config (K_syscall (SYSCALL_IO_FLUSH example_config) 0) st_a_running =
     Inl (Panic ''Invalid system call'')"
  by code_simp

text \<open>
  C7. \<^verbatim>\<open>kproc_destroy\<close> of a live process other than the idle process unregisters it,
  zeroes its PCB and its whole stack, returns its slot to the allocator and returns 0.
  The code does all of this but the stack: the second \<^verbatim>\<open>memset\<close> takes its target from
  \<^verbatim>\<open>proc->stack\<close>, which the first has just set to NULL. After the destruction of A its
  slot is zero and back in the allocator, and its stack still holds the trapframe that
  the creation of A wrote.
\<close>

theorem destroy_leaves_stack:
  "state (proc_table st_ab ! 1) = IDLE
   \<and> pid (proc_table st_ab ! 1) = 1
   \<and> kproc_destroy example_config (Some 1) st_ab = Inr (0, st_a_destroyed)
   \<and> proc_table st_a_destroyed ! 1 = proc_zero example_config
   \<and> proc_stack st_a_destroyed = proc_stack st_ab
   \<and> proc_stack st_a_destroyed ! 1 = example_frame 20480 16384"
  by code_simp

text \<open>
  C8, the counterexample. PROC_GET_NAME returns -1 only when there is no active
  process: with A active and a null buffer pointer it returns -1.
\<close>

theorem proc_get_name_null_buffer:
  "active_proc st_a_running = Some 1
   \<and> ksyscall_proc_get_name example_config 0 st_a_running = (- 1, st_a_running)"
  by code_simp

text \<open>
  C8, as amended. PROC_GET_PID returns -1 when there is no active process and the pid
  of the active process otherwise. PROC_GET_NAME returns -1 when there is no active
  process or the buffer pointer is null; otherwise it returns 0 after copying the name
  of the active process into the buffer (\<^verbatim>\<open>strncpy\<close> with \<open>PROC_NAME_LEN\<close>: the buffer
  then holds the same string when the name is terminated within that length). Neither
  changes the process table; the second changes the buffer and nothing else.
\<close>

theorem proc_accessors_read_only:
  "(active_proc s = None \<longrightarrow>
      ksyscall_proc_get_pid s = - 1 \<and> ksyscall_proc_get_name c buf s = (- 1, s))
   \<and> (active_proc s = Some i \<longrightarrow>
      ksyscall_proc_get_pid s = pid (proc_table s ! i)
      \<and> (buf = 0 \<longrightarrow> ksyscall_proc_get_name c buf s = (- 1, s))
      \<and> (buf \<noteq> 0 \<longrightarrow>
           (\<exists>s'. ksyscall_proc_get_name c buf s = (0, s')
              \<and> proc_table s' = proc_table s
              \<and> s' = s\<lparr>user_mem := user_mem s'\<rparr>
              \<and> read_mem s' buf =
                  strncpy (read_mem s buf) (name (proc_table s ! i)) (PROC_NAME_LEN c)
              \<and> (length (c_str (name (proc_table s ! i))) < PROC_NAME_LEN c \<longrightarrow>
                   c_str (read_mem s' buf) = c_str (name (proc_table s ! i))))))"
proof (intro conjI impI)
  assume "active_proc s = None"
  then show "ksyscall_proc_get_pid s = - 1" by (simp add: ksyscall_proc_get_pid_def)
next
  assume "active_proc s = None"
  then show "ksyscall_proc_get_name c buf s = (- 1, s)" by (simp add: ksyscall_proc_get_name_def)
next
  assume "active_proc s = Some i"
  then show "ksyscall_proc_get_pid s = pid (proc_table s ! i)"
    by (simp add: ksyscall_proc_get_pid_def)
next
  assume "active_proc s = Some i" "buf = 0"
  then show "ksyscall_proc_get_name c buf s = (- 1, s)" by (simp add: ksyscall_proc_get_name_def)
next
  assume a: "active_proc s = Some i" and b: "buf \<noteq> 0"
  let ?bs = "strncpy (read_mem s buf) (name (proc_table s ! i)) (PROC_NAME_LEN c)"
  have r: "ksyscall_proc_get_name c buf s = (0, write_mem buf ?bs s)"
    using a b by (simp add: ksyscall_proc_get_name_def)
  have "proc_table (write_mem buf ?bs s) = proc_table s"
    and "write_mem buf ?bs s = s\<lparr>user_mem := user_mem (write_mem buf ?bs s)\<rparr>"
    and "read_mem (write_mem buf ?bs s) buf = ?bs"
    by (simp_all add: write_mem_def read_mem_def)
  moreover have "length (c_str (name (proc_table s ! i))) < PROC_NAME_LEN c \<longrightarrow>
      c_str (read_mem (write_mem buf ?bs s) buf) = c_str (name (proc_table s ! i))"
    by (simp add: read_mem_write_mem c_str_strncpy)
  ultimately show "\<exists>s'. ksyscall_proc_get_name c buf s = (0, s')
              \<and> proc_table s' = proc_table s
              \<and> s' = s\<lparr>user_mem := user_mem s'\<rparr>
              \<and> read_mem s' buf = ?bs
              \<and> (length (c_str (name (proc_table s ! i))) < PROC_NAME_LEN c \<longrightarrow>
                   c_str (read_mem s' buf) = c_str (name (proc_table s ! i)))"
    using r by blast
qed

theorem proc_accessors_read_only_witness:
  "(active_proc st_boot = None
     \<and> ksyscall_proc_get_pid st_boot = - 1
     \<and> ksyscall_proc_get_name example_config 4660 st_boot = (- 1, st_boot))
   \<and> (active_proc st_a_running = Some 1
     \<and> ksyscall_proc_get_pid st_a_running = pid (proc_table st_a_running ! 1)
     \<and> ksyscall_proc_get_name example_config 0 st_a_running = (- 1, st_a_running)
     \<and> (4660 :: 32 word) \<noteq> 0
     \<and> length (c_str (name (proc_table st_a_running ! 1))) < PROC_NAME_LEN example_config
     \<and> (\<exists>s'. ksyscall_proc_get_name example_config 4660 st_a_running = (0, s')
              \<and> proc_table s' = proc_table st_a_running
              \<and> s' = st_a_running\<lparr>user_mem := user_mem s'\<rparr>
              \<and> read_mem s' 4660 =
                  strncpy (read_mem st_a_running 4660) (name (proc_table st_a_running ! 1))
                    (PROC_NAME_LEN example_config)
              \<and> c_str (read_mem s' 4660) = c_str (name (proc_table st_a_running ! 1))))"
proof -
  have n: "active_proc st_boot = None" by code_simp
  have a: "active_proc st_a_running = Some 1" by code_simp
  have b: "(4660 :: 32 word) \<noteq> 0" by simp
  have l: "length (c_str (name (proc_table st_a_running ! 1))) < PROC_NAME_LEN example_config"
    by code_simp
  from proc_accessors_read_only[where s = st_boot and c = example_config and buf = 4660] n
  have 1: "ksyscall_proc_get_pid st_boot = - 1
     \<and> ksyscall_proc_get_name example_config 4660 st_boot = (- 1, st_boot)" by blast
  from proc_accessors_read_only[where s = st_a_running and i = 1 and c = example_config and buf = 0] a
  have 2: "ksyscall_proc_get_pid st_a_running = pid (proc_table st_a_running ! 1)
     \<and> ksyscall_proc_get_name example_config 0 st_a_running = (- 1, st_a_running)" by blast
  from proc_accessors_read_only[where s = st_a_running and i = 1 and c = example_config and buf = 4660] a b l
  have 3: "\<exists>s'. ksyscall_proc_get_name example_config 4660 st_a_running = (0, s')
              \<and> proc_table s' = proc_table st_a_running
              \<and> s' = st_a_running\<lparr>user_mem := user_mem s'\<rparr>
              \<and> read_mem s' 4660 =
                  strncpy (read_mem st_a_running 4660) (name (proc_table st_a_running ! 1))
                    (PROC_NAME_LEN example_config)
              \<and> c_str (read_mem s' 4660) = c_str (name (proc_table st_a_running ! 1))"
    by blast
  from n a b l 1 2 3 show ?thesis by blast
qed

text \<open>
  C9. For every run-queue contents \<open>Q\<close> and every process whose pid is not in \<open>Q\<close>,
  \<^verbatim>\<open>scheduler_add\<close> followed at once by \<^verbatim>\<open>scheduler_remove\<close> of the same process leaves
  the run queue with exactly the contents and order \<open>Q\<close>. Both calls return when the
  queue has room for the added pid; the call of \<^verbatim>\<open>scheduler_add\<close> on a full queue halts
  the kernel and is never followed by anything.
\<close>

theorem add_then_remove_restores_run_queue:
  assumes "i < length (proc_table s)"
    and "run_queue s = Q"
    and "pid (proc_table s ! i) \<notin> set Q"
    and "length Q < QUEUE_SIZE c"
  shows "\<exists>s1 s2. scheduler_add c (Some i) s = Inr s1
           \<and> run_queue s1 = Q @ [pid (proc_table s ! i)]
           \<and> scheduler_remove c (Some i) s1 = Inr s2
           \<and> run_queue s2 = Q"
proof -
  let ?p = "pid (proc_table s ! i)"
  let ?s1 = "s\<lparr>proc_table := (proc_table s)[i := (proc_table s ! i)
               \<lparr>scheduler_queue := Some RUN_QUEUE, state := IDLE, cpu_time := 0\<rparr>],
            run_queue := run_queue s @ [?p]\<rparr>"
  have add: "scheduler_add c (Some i) s = Inr ?s1"
    using assms by (intro scheduler_add_ok) auto
  have loop: "remove_loop c ?p 0 (Q @ [?p]) = Inr Q"
    using assms by (intro remove_loop_last) auto
  have "\<exists>s2. scheduler_remove c (Some i) ?s1 = Inr s2 \<and> run_queue s2 = Q"
    using assms loop
    by (simp add: scheduler_remove_def queue_of_def set_queue_def upd_proc_def)
  with add assms show ?thesis by auto
qed

theorem add_then_remove_restores_run_queue_witness:
  "1 < length (proc_table st_a_running)
   \<and> run_queue st_a_running = [2]
   \<and> pid (proc_table st_a_running ! 1) \<notin> set [2]
   \<and> length [2 :: int] < QUEUE_SIZE example_config
   \<and> (\<exists>s1 s2. scheduler_add example_config (Some 1) st_a_running = Inr s1
           \<and> run_queue s1 = [2] @ [pid (proc_table st_a_running ! 1)]
           \<and> scheduler_remove example_config (Some 1) s1 = Inr s2
           \<and> run_queue s2 = [2])"
proof -
  have h1: "1 < length (proc_table st_a_running)" by code_simp
  have h2: "run_queue st_a_running = [2]" by code_simp
  have h3: "pid (proc_table st_a_running ! 1) \<notin> set [2]" by code_simp
  have h4: "length [2 :: int] < QUEUE_SIZE example_config" by code_simp
  from add_then_remove_restores_run_queue[OF h1 h2 h3 h4] h1 h2 h3 h4
  show ?thesis by blast
qed

text \<open>
  C10. \<^verbatim>\<open>scheduler_sleep\<close> never halts the kernel when the sleep queue is full: the
  result of \<^verbatim>\<open>queue_in\<close> is not looked at, the pid is dropped, and the call completes
  with the process SLEEPING and in no queue. The process is taken to be in at most
  the queue its back-reference names, as the process that asks to sleep is. In
  contrast, \<^verbatim>\<open>scheduler_add\<close> on a full run queue halts the kernel.
\<close>

theorem sleep_queue_overflow_is_silent:
  assumes valid: "i < length (proc_table s)"
    and full: "length (sleep_queue s) = QUEUE_SIZE c"
    and notin: "pid (proc_table s ! i) \<notin> set (sleep_queue s)"
    and rq: "distinct (run_queue s)" "length (run_queue s) \<le> QUEUE_SIZE c"
    and backref: "pid (proc_table s ! i) \<in> set (run_queue s) \<longrightarrow>
                  scheduler_queue (proc_table s ! i) = Some RUN_QUEUE"
    and rfull: "QUEUE_SIZE c \<le> length (run_queue sr)"
  shows "(\<exists>s'. scheduler_sleep c (Some i) t s = Inr s'
            \<and> state (proc_table s' ! i) = SLEEPING
            \<and> sleep_time (proc_table s' ! i) = int32 (timer_get_ticks s + t)
            \<and> sleep_queue s' = sleep_queue s
            \<and> pid (proc_table s ! i) \<notin> set (sleep_queue s')
            \<and> pid (proc_table s ! i) \<notin> set (run_queue s'))
       \<and> scheduler_add c (Some j) sr =
            Inl (Panic ''Unable to add the process to the scheduler'')"
proof -
  let ?p = "pid (proc_table s ! i)"
  obtain q' where q': "remove_loop c ?p 0 (run_queue s) = Inr q'"
      "set q' = set (run_queue s) - {?p}"
    using remove_loop_distinct[OF rq] by blast
  have sl: "remove_loop c ?p 0 (sleep_queue s) = Inr (sleep_queue s)"
    using notin full by (simp add: remove_loop_absent)
  have "\<exists>s'. scheduler_sleep c (Some i) t s = Inr s'
            \<and> state (proc_table s' ! i) = SLEEPING
            \<and> sleep_time (proc_table s' ! i) = int32 (timer_get_ticks s + t)
            \<and> sleep_queue s' = sleep_queue s
            \<and> ?p \<notin> set (sleep_queue s')
            \<and> ?p \<notin> set (run_queue s')"
  proof (cases "scheduler_queue (proc_table s ! i)")
    case None
    with valid full notin backref show ?thesis
      by (simp add: scheduler_sleep_def scheduler_remove_def upd_proc_def queue_in_def Let_def)
  next
    case (Some qid)
    show ?thesis
    proof (cases qid)
      case RUN_QUEUE
      with Some valid full notin q' show ?thesis
        by (simp add: scheduler_sleep_def scheduler_remove_def upd_proc_def queue_in_def
            queue_of_def set_queue_def Let_def)
    next
      case SLEEP_QUEUE
      with Some valid full notin sl backref show ?thesis
        by (simp add: scheduler_sleep_def scheduler_remove_def upd_proc_def queue_in_def
            queue_of_def set_queue_def Let_def)
    qed
  qed
  with scheduler_add_full[OF rfull] show ?thesis by blast
qed

theorem sleep_queue_overflow_is_silent_witness:
  "(\<exists>s'. scheduler_sleep (example_config\<lparr>QUEUE_SIZE := 2\<rparr>) (Some 0) 5 st_sleepers = Inr s'
            \<and> state (proc_table s' ! 0) = SLEEPING
            \<and> sleep_time (proc_table s' ! 0) = int32 (timer_get_ticks st_sleepers + 5)
            \<and> sleep_queue s' = sleep_queue st_sleepers
            \<and> pid (proc_table st_sleepers ! 0) \<notin> set (sleep_queue s')
            \<and> pid (proc_table st_sleepers ! 0) \<notin> set (run_queue s'))
   \<and> scheduler_add (example_config\<lparr>QUEUE_SIZE := 2\<rparr>) (Some 1) st_ab =
        Inl (Panic ''Unable to add the process to the scheduler'')"
proof -
  let ?c = "example_config\<lparr>QUEUE_SIZE := 2\<rparr>"
  have h1: "0 < length (proc_table st_sleepers)" by code_simp
  have h2: "length (sleep_queue st_sleepers) = QUEUE_SIZE ?c" by code_simp
  have h3: "pid (proc_table st_sleepers ! 0) \<notin> set (sleep_queue st_sleepers)" by code_simp
  have h4: "distinct (run_queue st_sleepers)" by code_simp
  have h5: "length (run_queue st_sleepers) \<le> QUEUE_SIZE ?c" by code_simp
  have h6: "pid (proc_table st_sleepers ! 0) \<in> set (run_queue st_sleepers) \<longrightarrow>
            scheduler_queue (proc_table st_sleepers ! 0) = Some RUN_QUEUE" by code_simp
  have h7: "QUEUE_SIZE ?c \<le> length (run_queue st_ab)" by code_simp
  show ?thesis
    by (rule sleep_queue_overflow_is_silent[OF h1 h2 h3 h4 h5 h6 h7])
qed

end
